theory Spec2Isabelle
  imports Main "HOL-Library.AList"
begin

section \<open>The chatroom broker of \<^verbatim>\<open>src/server.js\<close>\<close>

text \<open>
  The broker is a single-threaded event handler: every handler runs to completion on the
  registry \<^verbatim>\<open>clients\<close> (a JavaScript Map from socket to record). The embedding
  passes the broker's state explicitly and returns, next to the new state, the list of
  effects the handler performs, in program order.
\<close>

subsection \<open>JavaScript values\<close>

text \<open>
  The fields of a parsed message are JavaScript values. The broker only copies them,
  tests them for truthiness (\<^verbatim>\<open>||\<close>) and compares them with string literals
  (\<^verbatim>\<open>===\<close>), and interpolates them into template literals. The model covers the
  primitive values, with the integers for the numbers; a field whose value is an object or
  an array is outside the model.
\<close>

datatype jsval = JUndefined | JNull | JBool bool | JNum int | JStr string

fun truthy :: "jsval \<Rightarrow> bool" where
  "truthy JUndefined = False"
| "truthy JNull = False"
| "truthy (JBool b) = b"
| "truthy (JNum n) = (n \<noteq> 0)"
| "truthy (JStr s) = (s \<noteq> [])"

text \<open>\<^verbatim>\<open>a || b\<close>\<close>

definition js_or :: "jsval \<Rightarrow> jsval \<Rightarrow> jsval" where
  "js_or a b = (if truthy a then a else b)"

text \<open>
  A template literal is kept as the sequence of its literal chunks and interpolated
  values, in the order they are written.
\<close>

datatype piece = Lit string | Sub jsval

type_synonym template = "piece list"

subsection \<open>Records, messages and effects\<close>

type_synonym ws = nat

text \<open>
  The record stored in \<^verbatim>\<open>clients\<close>; the field \<open>ctype\<close> is its property
  \<^verbatim>\<open>type\<close>. The property \<^verbatim>\<open>leaving\<close> is absent until it is assigned
  \<^verbatim>\<open>true\<close> and is only ever tested for truthiness.
\<close>

record client_info =
  name :: jsval
  ctype :: jsval
  alive :: bool
  joinedAt :: int
  status :: jsval
  task :: jsval
  leaving :: bool

record participant =
  p_name :: jsval
  p_type :: jsval
  p_status :: jsval
  p_task :: jsval
  p_joinedAt :: int

record who_entry =
  w_name :: jsval
  w_type :: jsval
  w_joinedAt :: int

text \<open>The objects the broker serialises and sends; the last argument is \<^verbatim>\<open>timestamp\<close>.\<close>

datatype out_msg =
    System template int
  | Chat jsval jsval jsval int
  | Discovery jsval jsval jsval jsval int
  | ParticipantsUpdate "participant list" int
  | WhoResponse "who_entry list" int

datatype js_error = SyntaxError | TypeError

datatype effect =
    Send ws out_msg
  | Ping ws
  | Terminate ws
  | ConsoleLog template
  | ConsoleError js_error

text \<open>
  What \<^verbatim>\<open>JSON.parse(data.toString())\<close> makes of a frame: it throws, or returns
  \<^verbatim>\<open>null\<close> (whose properties cannot be read), or returns a value whose properties
  are read by name (\<^verbatim>\<open>undefined\<close> where absent).
\<close>

datatype frame = Unparseable | ParsedNull | Parsed "string \<Rightarrow> jsval"

text \<open>
  Per connection: the closure variable \<^verbatim>\<open>clientInfo\<close> of the connection handler and
  the socket's \<^verbatim>\<open>readyState\<close> (1 is OPEN, 2 CLOSING, 3 CLOSED). After a
  \<^verbatim>\<open>register\<close> the closure variable and the Map's value are one object; the handlers
  read only \<^verbatim>\<open>name\<close> and \<^verbatim>\<open>type\<close> through the closure variable, and these
  are never assigned after the object is built.
\<close>

record conn =
  clientInfo :: client_info
  readyState :: nat

text \<open>
  The broker's state: the sockets with handlers attached, the Map \<^verbatim>\<open>clients\<close> in
  insertion order, and the number of times the clock has been read. The clock itself is
  a parameter \<open>clk\<close>: the value of the \<open>n\<close>-th call of \<^verbatim>\<open>Date.now()\<close>.
\<close>

record state =
  conns :: "ws \<Rightarrow> conn option"
  clients :: "(ws \<times> client_info) list"
  reads :: nat

type_synonym clock = "nat \<Rightarrow> int"

definition Date_now :: "clock \<Rightarrow> state \<Rightarrow> int \<times> state" where
  "Date_now clk s = (clk (reads s), s\<lparr>reads := Suc (reads s)\<rparr>)"

text \<open>\<^verbatim>\<open>Math.round(x / 1000)\<close> for an integer \<open>x\<close>: halves round up.\<close>

definition round_div_1000 :: "int \<Rightarrow> int" where
  "round_div_1000 x = (x + 500) div 1000"

subsection \<open>The Map operations\<close>

text \<open>
  The Map is the list of its entries in insertion order: \<^verbatim>\<open>clients.get(ws)\<close> is
  \<^const>\<open>map_of\<close>, and \<^verbatim>\<open>clients.has(ws)\<close> tells whether it finds an entry.
\<close>

definition has :: "(ws \<times> client_info) list \<Rightarrow> ws \<Rightarrow> bool" where
  "has cl w = (map_of cl w \<noteq> None)"

text \<open>
  \<^verbatim>\<open>clients.set(ws, info)\<close> is \<^const>\<open>AList.update\<close> (an existing key keeps its
  place, a new one goes last), \<^verbatim>\<open>clients.delete(ws)\<close> is \<^const>\<open>AList.delete\<close>, and
  an assignment to a property of \<^verbatim>\<open>clients.get(ws)\<close> is \<^const>\<open>AList.map_entry\<close>.
\<close>

text \<open>\<^verbatim>\<open>client.readyState\<close>; a socket that has no handlers any more is CLOSED.\<close>

definition readyState_of :: "(ws \<Rightarrow> conn option) \<Rightarrow> ws \<Rightarrow> nat" where
  "readyState_of cs w = (case cs w of None \<Rightarrow> 3 | Some c \<Rightarrow> readyState c)"

subsection \<open>broadcast and broadcastParticipants\<close>

text \<open>\<^verbatim>\<open>broadcast(wss, clients, message)\<close>; the argument \<^verbatim>\<open>wss\<close> is not used.\<close>

fun broadcast_loop :: "(ws \<Rightarrow> conn option) \<Rightarrow> ws list \<Rightarrow> out_msg \<Rightarrow> effect list" where
  "broadcast_loop cs [] message = []"
| "broadcast_loop cs (client # rest) message =
     (if readyState_of cs client = 1
      then Send client message # broadcast_loop cs rest message
      else broadcast_loop cs rest message)"

definition broadcast :: "state \<Rightarrow> out_msg \<Rightarrow> effect list" where
  "broadcast s message = broadcast_loop (conns s) (map fst (clients s)) message"

definition participant_of :: "client_info \<Rightarrow> participant" where
  "participant_of info =
     \<lparr> p_name = name info,
       p_type = ctype info,
       p_status = (if ctype info = JStr ''user'' then JStr ''observer''
                   else js_or (status info) (JStr ''idle'')),
       p_task = js_or (task info) JNull,
       p_joinedAt = joinedAt info \<rparr>"

text \<open>The loop of \<^verbatim>\<open>broadcastParticipants\<close> that fills \<^verbatim>\<open>participants\<close>.\<close>

definition participants_list :: "(ws \<times> client_info) list \<Rightarrow> participant list" where
  "participants_list cl = map (\<lambda>(w, info). participant_of info) cl"

definition broadcastParticipants :: "clock \<Rightarrow> state \<Rightarrow> state \<times> effect list" where
  "broadcastParticipants clk s =
     (let participants = participants_list (clients s);
          (now, s1) = Date_now clk s
      in (s1, broadcast s1 (ParticipantsUpdate participants now)))"

subsection \<open>The heartbeat and the periodic snapshot\<close>

text \<open>
  \<^verbatim>\<open>ws.terminate()\<close> of the socket library: the socket is marked CLOSING and
  destroyed at once; its \<^verbatim>\<open>close\<close> event is emitted later, as an event of its own.
\<close>

definition terminate :: "ws \<Rightarrow> (ws \<Rightarrow> conn option) \<Rightarrow> (ws \<Rightarrow> conn option)" where
  "terminate w cs = (case cs w of None \<Rightarrow> cs | Some c \<Rightarrow> cs(w \<mapsto> c\<lparr>readyState := 2\<rparr>))"

text \<open>
  The loop of the heartbeat callback over \<^verbatim>\<open>clients.entries()\<close>: each record is
  mutated in its place.
\<close>

fun heartbeat_loop ::
  "(ws \<times> client_info) list \<Rightarrow> (ws \<Rightarrow> conn option) \<Rightarrow>
     (ws \<times> client_info) list \<times> (ws \<Rightarrow> conn option) \<times> effect list" where
  "heartbeat_loop [] cs = ([], cs, [])"
| "heartbeat_loop ((w, info) # rest) cs =
     (if \<not> alive info then
        (let (rest', cs', effs) = heartbeat_loop rest (terminate w cs)
         in ((w, info) # rest', cs',
             ConsoleLog [Lit ''! '', Sub (name info),
                         Lit '' (no heartbeat response, terminating)'']
               # Terminate w # effs))
      else
        (let (rest', cs', effs) = heartbeat_loop rest cs
         in ((w, info\<lparr>alive := False\<rparr>) # rest', cs', Ping w # effs)))"

definition heartbeatInterval :: "clock \<Rightarrow> state \<Rightarrow> state \<times> effect list" where
  "heartbeatInterval clk s =
     (let (now, s1) = Date_now clk s;
          (cl, cs, effs) = heartbeat_loop (clients s1) (conns s1)
      in (s1\<lparr>conns := cs, clients := cl\<rparr>, effs))"

definition participantInterval :: "clock \<Rightarrow> state \<Rightarrow> state \<times> effect list" where
  "participantInterval clk s =
     (if length (clients s) > 0 then broadcastParticipants clk s else (s, []))"

subsection \<open>The connection handlers\<close>

definition on_connection :: "clock \<Rightarrow> state \<Rightarrow> ws \<Rightarrow> state \<times> effect list" where
  "on_connection clk s w =
     (let (now, s1) = Date_now clk s;
          info = \<lparr> name = JStr ''unknown'', ctype = JStr ''unknown'', alive = True,
                   joinedAt = now, status = JStr ''idle'', task = JNull, leaving = False \<rparr>
      in (s1\<lparr>conns := (conns s1)(w \<mapsto> \<lparr> clientInfo = info, readyState = 1 \<rparr>)\<rparr>, []))"

definition on_pong :: "state \<Rightarrow> ws \<Rightarrow> state \<times> effect list" where
  "on_pong s w =
     (if has (clients s) w
      then (s\<lparr>clients := AList.map_entry w (\<lambda>info. info\<lparr>alive := True\<rparr>) (clients s)\<rparr>, [])
      else (s, []))"

text \<open>The branches of the message handler, in the order of the source.\<close>

definition register_msg :: "clock \<Rightarrow> state \<Rightarrow> ws \<Rightarrow> conn \<Rightarrow> (string \<Rightarrow> jsval) \<Rightarrow> state \<times> effect list" where
  "register_msg clk s w c msg =
     (let (registerTime, s1) = Date_now clk s;
          info = \<lparr> name = msg ''name'',
                   ctype = js_or (msg ''agentType'') (JStr ''agent''),
                   alive = True,
                   joinedAt = registerTime,
                   status = JStr ''idle'',
                   task = JNull,
                   leaving = False \<rparr>;
          s2 = s1\<lparr>conns := (conns s1)(w \<mapsto> c\<lparr>clientInfo := info\<rparr>),
                  clients := AList.update w info (clients s1)\<rparr>;
          (t, s3) = Date_now clk s2;
          e1 = broadcast s3 (System [Sub (name info), Lit '' joined''] t);
          (s4, e2) = broadcastParticipants clk s3
      in (s4, e1 @ e2 @
            [ConsoleLog [Lit ''+ '', Sub (name info), Lit '' ('', Sub (ctype info), Lit '')'']]))"

definition status_update_msg :: "clock \<Rightarrow> state \<Rightarrow> ws \<Rightarrow> (string \<Rightarrow> jsval) \<Rightarrow> state \<times> effect list" where
  "status_update_msg clk s w msg =
     (case map_of (clients s) w of
        None \<Rightarrow> (s, [])
      | Some info0 \<Rightarrow>
          (let info = info0\<lparr>status := js_or (msg ''status'') (JStr ''idle''),
                            task := js_or (msg ''task'') JNull\<rparr>;
               s1 = s\<lparr>clients := AList.map_entry w (\<lambda>_. info) (clients s)\<rparr>;
               (s2, e) = broadcastParticipants clk s1
           in (s2, e @
                 [ConsoleLog ([Lit ''~ '', Sub (name info), Lit '' status: '', Sub (status info)]
                    @ (if truthy (task info) then [Lit '' - '', Sub (task info)]
                       else [Lit []]))])))"

definition chat_msg :: "clock \<Rightarrow> state \<Rightarrow> conn \<Rightarrow> (string \<Rightarrow> jsval) \<Rightarrow> state \<times> effect list" where
  "chat_msg clk s c msg =
     (let (t, s1) = Date_now clk s
      in (s1, broadcast s1
            (Chat (js_or (msg ''from'') (name (clientInfo c)))
                  (ctype (clientInfo c))
                  (msg ''text'')
                  t)))"

definition discovery_msg :: "clock \<Rightarrow> state \<Rightarrow> ws \<Rightarrow> conn \<Rightarrow> (string \<Rightarrow> jsval) \<Rightarrow> state \<times> effect list" where
  "discovery_msg clk s w c msg =
     (let s0 = (if msg ''category'' = JStr ''leaving'' \<and> has (clients s) w
                then s\<lparr>clients := AList.map_entry w (\<lambda>info. info\<lparr>leaving := True\<rparr>) (clients s)\<rparr>
                else s);
          (t, s1) = Date_now clk s0
      in (s1, broadcast s1
            (Discovery (js_or (msg ''from'') (name (clientInfo c)))
                       (ctype (clientInfo c))
                       (msg ''category'')
                       (msg ''text'')
                       t)))"

definition leaving_msg :: "state \<Rightarrow> ws \<Rightarrow> state \<times> effect list" where
  "leaving_msg s w =
     (if has (clients s) w
      then (s\<lparr>clients := AList.map_entry w (\<lambda>info. info\<lparr>leaving := True\<rparr>) (clients s)\<rparr>, [])
      else (s, []))"

text \<open>The loop of the \<^verbatim>\<open>who\<close> branch that fills \<^verbatim>\<open>online\<close>.\<close>

definition online_list :: "(ws \<times> client_info) list \<Rightarrow> who_entry list" where
  "online_list cl = map (\<lambda>(k, info). \<lparr> w_name = name info, w_type = ctype info,
                                          w_joinedAt = joinedAt info \<rparr>) cl"

definition who_msg :: "clock \<Rightarrow> state \<Rightarrow> ws \<Rightarrow> state \<times> effect list" where
  "who_msg clk s w =
     (let online = online_list (clients s);
          (t, s1) = Date_now clk s
      in (s1, [Send w (WhoResponse online t)]))"

text \<open>
  The body of the \<^verbatim>\<open>try\<close> block: \<open>Inl\<close> is a thrown exception. The
  \<^verbatim>\<open>register\<close> and \<^verbatim>\<open>status_update\<close> branches return; the four that follow
  are tried one after the other.
\<close>

definition try_message :: "clock \<Rightarrow> state \<Rightarrow> ws \<Rightarrow> conn \<Rightarrow> frame \<Rightarrow> js_error + state \<times> effect list" where
  "try_message clk s w c fr =
     (case fr of
        Unparseable \<Rightarrow> Inl SyntaxError
      | ParsedNull \<Rightarrow> Inl TypeError
      | Parsed msg \<Rightarrow>
          if msg ''type'' = JStr ''register'' then Inr (register_msg clk s w c msg)
          else if msg ''type'' = JStr ''status_update'' then Inr (status_update_msg clk s w msg)
          else
            (let (s1, e1) = (if msg ''type'' = JStr ''chat'' then chat_msg clk s c msg else (s, []));
                 (s2, e2) = (if msg ''type'' = JStr ''discovery'' then discovery_msg clk s1 w c msg
                             else (s1, []));
                 (s3, e3) = (if msg ''type'' = JStr ''leaving'' then leaving_msg s2 w else (s2, []));
                 (s4, e4) = (if msg ''type'' = JStr ''who'' then who_msg clk s3 w else (s3, []))
             in Inr (s4, e1 @ e2 @ e3 @ e4)))"

text \<open>The handler with its \<^verbatim>\<open>catch\<close>; a socket without handlers receives nothing.\<close>

definition on_message :: "clock \<Rightarrow> state \<Rightarrow> ws \<Rightarrow> frame \<Rightarrow> state \<times> effect list" where
  "on_message clk s w fr =
     (case conns s w of
        None \<Rightarrow> (s, [])
      | Some c \<Rightarrow>
          (case try_message clk s w c fr of
             Inl err \<Rightarrow> (s, [ConsoleError err])
           | Inr r \<Rightarrow> r))"

definition exitReason :: "int \<Rightarrow> client_info \<Rightarrow> string" where
  "exitReason code info =
     (if code = 1000 \<or> leaving info then ''left normally''
      else if code = 1001 then ''going away''
      else if code = 1006 then ''connection lost''
      else if \<not> alive info then ''heartbeat timeout''
      else ''disconnected'')"

definition on_close :: "clock \<Rightarrow> state \<Rightarrow> ws \<Rightarrow> int \<Rightarrow> state \<times> effect list" where
  "on_close clk s w code =
     (case map_of (clients s) w of
        None \<Rightarrow> (s, [])
      | Some info \<Rightarrow>
          (let (now, s1) = Date_now clk s;
               duration = round_div_1000 (now - joinedAt info);
               reason = exitReason code info;
               s2 = s1\<lparr>clients := AList.delete w (clients s1)\<rparr>;
               (t, s3) = Date_now clk s2;
               e1 = broadcast s3
                      (System [Sub (name info), Lit '' '', Sub (JStr reason),
                               Lit '' (was here '', Sub (JNum duration), Lit ''s)''] t);
               (s4, e2) = broadcastParticipants clk s3
           in (s4, e1 @ e2 @
                 [ConsoleLog [Lit ''- '', Sub (name info), Lit '' ['', Sub (JStr reason),
                              Lit ''] (code: '', Sub (JNum code), Lit '', duration: '',
                              Sub (JNum duration), Lit ''s)'']])))"

subsection \<open>Events\<close>

text \<open>
  The events the runtime delivers to the broker. A socket emits events from its
  \<^verbatim>\<open>connection\<close> event to its \<^verbatim>\<open>close\<close> event and none after; it turns
  CLOSING when a close frame is exchanged or when it is terminated, and CLOSED just
  before its \<^verbatim>\<open>close\<close> event is emitted. An event of a socket that is not between
  the two does nothing, and neither does a second \<^verbatim>\<open>connection\<close> event of a socket
  that is.
\<close>

datatype event =
    Connection ws
  | Message ws frame
  | Pong ws
  | SocketClosing ws
  | Close ws int
  | HeartbeatTick
  | ParticipantTick

fun dispatch :: "clock \<Rightarrow> state \<Rightarrow> event \<Rightarrow> state \<times> effect list" where
  "dispatch clk s (Connection w) =
     (case conns s w of None \<Rightarrow> on_connection clk s w | Some c \<Rightarrow> (s, []))"
| "dispatch clk s (Message w fr) = on_message clk s w fr"
| "dispatch clk s (Pong w) =
     (case conns s w of None \<Rightarrow> (s, []) | Some c \<Rightarrow> on_pong s w)"
| "dispatch clk s (SocketClosing w) = (s\<lparr>conns := terminate w (conns s)\<rparr>, [])"
| "dispatch clk s (Close w code) =
     (case conns s w of
        None \<Rightarrow> (s, [])
      | Some c \<Rightarrow>
          (let (s1, effs) = on_close clk (s\<lparr>conns := (conns s)(w \<mapsto> c\<lparr>readyState := 3\<rparr>)\<rparr>) w code
           in (s1\<lparr>conns := (conns s1)(w := None)\<rparr>, effs)))"
| "dispatch clk s HeartbeatTick = heartbeatInterval clk s"
| "dispatch clk s ParticipantTick = participantInterval clk s"

fun run :: "clock \<Rightarrow> state \<Rightarrow> event list \<Rightarrow> state \<times> effect list" where
  "run clk s [] = (s, [])"
| "run clk s (ev # evs) =
     (let (s1, e1) = dispatch clk s ev;
          (s2, e2) = run clk s1 evs
      in (s2, e1 @ e2))"

definition init :: state where
  "init = \<lparr> conns = (\<lambda>w. None), clients = [], reads = 0 \<rparr>"

subsection \<open>Observing the messages sent\<close>


fun sent :: "effect list \<Rightarrow> out_msg list" where
  "sent [] = []"
| "sent (Send r m # es) = m # sent es"
| "sent (e # es) = sent es"


subsection \<open>Sample inputs\<close>

text \<open>
  Reading a property of an object given by its own properties (the names pairwise
  different).
\<close>

definition obj :: "(string \<times> jsval) list \<Rightarrow> string \<Rightarrow> jsval" where
  "obj kvs k = (case map_of kvs k of None \<Rightarrow> JUndefined | Some v \<Rightarrow> v)"

text \<open>A clock that advances by a second at every reading.\<close>

definition tick_clock :: clock where
  "tick_clock n = 1000 * int n"

definition member :: "string \<Rightarrow> int \<Rightarrow> client_info" where
  "member n t = \<lparr> name = JStr n, ctype = JStr ''agent'', alive = True, joinedAt = t,
                  status = JStr ''idle'', task = JNull, leaving = False \<rparr>"

text \<open>
  A room with two registered sockets, the second of them closing, and a third socket
  that is connected and has not registered; and the events that lead to it.
\<close>

definition room :: state where
  "room = \<lparr> conns = [3 \<mapsto> \<lparr> clientInfo = (member ''unknown'' 0)\<lparr>ctype := JStr ''unknown''\<rparr>,
                            readyState = 1 \<rparr>,
                      1 \<mapsto> \<lparr> clientInfo = member ''ann'' 2000, readyState = 1 \<rparr>,
                      2 \<mapsto> \<lparr> clientInfo = member ''bob'' 6000, readyState = 2 \<rparr>],
             clients = [(1, member ''ann'' 2000), (2, member ''bob'' 6000)],
             reads = 9 \<rparr>"

definition room_events :: "event list" where
  "room_events =
     [Connection 3,
      Connection 1,
      Message 1 (Parsed (obj [(''type'', JStr ''register''), (''name'', JStr ''ann'')])),
      Connection 2,
      Message 2 (Parsed (obj [(''type'', JStr ''register''), (''name'', JStr ''bob'')])),
      SocketClosing 2]"

text \<open>A third participant registers, as a human observer.\<close>

definition eve_joins :: event where
  "eve_joins = Message 3 (Parsed (obj [(''type'', JStr ''register''), (''name'', JStr ''eve''),
                                       (''agentType'', JStr ''user'')]))"

text \<open>
  The same room with socket 2 open and socket 1 at work, silent since the last ping and
  about to leave; and socket 1 registering once more.
\<close>

definition lounge :: state where
  "lounge = room\<lparr> conns := (conns room)(2 \<mapsto> \<lparr> clientInfo = member ''bob'' 6000,
                                                   readyState = 1 \<rparr>),
                    clients := [(1, (member ''ann'' 2000)\<lparr>alive := False, status := JStr ''busy'',
                                      task := JStr ''src/auth/'', leaving := True\<rparr>),
                                (2, member ''bob'' 6000)] \<rparr>"

definition ann_again :: event where
  "ann_again = Message 1 (Parsed (obj [(''type'', JStr ''register''), (''name'', JStr ''ann'')]))"

text \<open>
  Two sockets connect and register; then socket 1 answers no ping for two heartbeat ticks
  while socket 2 answers the first.
\<close>

definition two_join :: "event list" where
  "two_join =
     [Connection 1,
      Message 1 (Parsed (obj [(''type'', JStr ''register''), (''name'', JStr ''ann'')])),
      Connection 2,
      Message 2 (Parsed (obj [(''type'', JStr ''register''), (''name'', JStr ''bob'')]))]"

definition silence_events :: "event list" where
  "silence_events = two_join @ [HeartbeatTick, Pong 2, HeartbeatTick]"



subsection \<open>Consistency of the registry\<close>

text \<open>
  The registry is consistent when its keys are pairwise different and every key is a socket
  that still has its handlers (it has had its \<^verbatim>\<open>connection\<close> event and not yet
  its \<^verbatim>\<open>close\<close> event), whose closure variable agrees with the Map's value on
  \<^verbatim>\<open>name\<close> and \<^verbatim>\<open>type\<close>.
\<close>

definition linked :: "(ws \<Rightarrow> conn option) \<Rightarrow> ws \<times> client_info \<Rightarrow> bool" where
  "linked cs = (\<lambda>(w, info). case cs w of
                                   None \<Rightarrow> False
                                 | Some c \<Rightarrow> name (clientInfo c) = name info
                                              \<and> ctype (clientInfo c) = ctype info)"

definition wf :: "state \<Rightarrow> bool" where
  "wf s = (distinct (map fst (clients s)) \<and> list_all (linked (conns s)) (clients s))"

section \<open>Properties\<close>

subsection \<open>Auxiliary facts\<close>

lemma broadcast_loop_eq:
  "broadcast_loop cs ks m = map (\<lambda>c. Send c m) (filter (\<lambda>c. readyState_of cs c = 1) ks)"
  by (induction ks) auto

lemma broadcast_eq:
  "broadcast s m =
     map (\<lambda>c. Send c m) (filter (\<lambda>c. readyState_of (conns s) c = 1) (map fst (clients s)))"
  by (simp add: broadcast_def broadcast_loop_eq)

lemma broadcastParticipants_eq:
  "broadcastParticipants clk s =
     (s\<lparr>reads := Suc (reads s)\<rparr>,
      map (\<lambda>c. Send c (ParticipantsUpdate (participants_list (clients s)) (clk (reads s))))
          (filter (\<lambda>c. readyState_of (conns s) c = 1) (map fst (clients s))))"
  by (simp add: broadcastParticipants_def Date_now_def broadcast_eq)

text \<open>Every event keeps the registry consistent.\<close>

lemma wf_alt: "wf s = (distinct (map fst (clients s)) \<and> (\<forall>e \<in> set (clients s). linked (conns s) e))"
  by (simp add: wf_def list_all_iff)

lemma set_update_cases:
  "distinct (map fst al) \<Longrightarrow> (a, b) \<in> set (AList.update k v al) \<Longrightarrow>
     (a = k \<and> b = v) \<or> ((a, b) \<in> set al \<and> a \<noteq> k)"
  by (induction al) (force split: if_splits)+

lemma set_map_entry_cases:
  "(a, b) \<in> set (AList.map_entry k f al) \<Longrightarrow>
     (a, b) \<in> set al \<or> (\<exists>v. (a, v) \<in> set al \<and> b = f v)"
  by (induction al) (auto split: if_splits)

lemma set_delete_cases:
  "(a, b) \<in> set (AList.delete k al) \<Longrightarrow> (a, b) \<in> set al \<and> a \<noteq> k"
  by (auto simp: AList.delete_eq)

lemma linked_alive [simp]: "linked cx (w, info\<lparr>alive := b\<rparr>) = linked cx (w, info)"
  by (simp add: linked_def split: option.splits)

lemma linked_fresh: "linked cs e \<Longrightarrow> cs w = None \<Longrightarrow> linked (cs(w := x)) e"
  by (cases e) (auto simp: linked_def split: option.splits)

lemma linked_other: "fst e \<noteq> w \<Longrightarrow> linked (cs(w := x)) e = linked cs e"
  by (cases e) (simp add: linked_def)

lemma linked_terminate [simp]: "linked (terminate w cs) e = linked cs e"
  by (cases e) (auto simp: linked_def terminate_def split: option.splits)

lemma heartbeat_loop_keys: "heartbeat_loop cl cs = (cl', cs', effs) \<Longrightarrow> map fst cl' = map fst cl"
  by (induction cl cs arbitrary: cl' cs' effs rule: heartbeat_loop.induct) (auto split: if_splits prod.splits)

lemma heartbeat_loop_conns:
  "heartbeat_loop cl cs = (cl', cs', effs) \<Longrightarrow> linked cs' e = linked cs e"
  by (induction cl cs arbitrary: cl' cs' effs rule: heartbeat_loop.induct)
     (auto split: if_splits prod.splits)

lemma heartbeat_loop_entries:
  "heartbeat_loop cl cs = (cl', cs', effs) \<Longrightarrow> \<forall>e \<in> set cl. linked cx e \<Longrightarrow> \<forall>e \<in> set cl'. linked cx e"
  by (induction cl cs arbitrary: cl' cs' effs rule: heartbeat_loop.induct)
     (auto split: if_splits prod.splits)

lemma wf_init: "wf init"
  by (simp add: wf_def init_def)

lemma wf_reads [simp]: "wf (s\<lparr>reads := n\<rparr>) = wf s"
  by (simp add: wf_def)

lemma wf_connection: "wf s \<Longrightarrow> conns s w = None \<Longrightarrow> wf (fst (on_connection clk s w))"
  by (simp add: wf_alt on_connection_def Date_now_def linked_fresh)

lemma wf_register:
  assumes "wf s"
  shows "wf (fst (register_msg clk s w c msg))"
proof -
  let ?info = "\<lparr> name = msg ''name'', ctype = js_or (msg ''agentType'') (JStr ''agent''),
                 alive = True, joinedAt = clk (reads s), status = JStr ''idle'', task = JNull,
                 leaving = False \<rparr>"
  have st: "clients (fst (register_msg clk s w c msg)) = AList.update w ?info (clients s)"
           "conns (fst (register_msg clk s w c msg)) = (conns s)(w \<mapsto> c\<lparr>clientInfo := ?info\<rparr>)"
    by (simp_all add: register_msg_def Date_now_def broadcastParticipants_eq Let_def)
  have d: "distinct (map fst (clients s))" using assms by (simp add: wf_alt)
  have "linked ((conns s)(w \<mapsto> c\<lparr>clientInfo := ?info\<rparr>)) e" if "e \<in> set (AList.update w ?info (clients s))" for e
  proof -
    obtain a b where e: "e = (a, b)" by (cases e)
    from set_update_cases [OF d] that e
    consider "a = w" "b = ?info" | "(a, b) \<in> set (clients s)" "a \<noteq> w" by blast
    then show ?thesis
    proof cases
      case 1
      then show ?thesis using e by (simp add: linked_def)
    next
      case 2
      then have "linked (conns s) e" using assms e by (simp add: wf_alt)
      then show ?thesis using 2 e by (simp add: linked_other)
    qed
  qed
  then show ?thesis
    using d by (simp add: wf_alt st distinct_update)
qed

lemma linked_same_id:
  "linked cs (a, v) \<Longrightarrow> name b = name v \<Longrightarrow> ctype b = ctype v \<Longrightarrow> linked cs (a, b)"
  by (simp add: linked_def split: option.splits)

lemma wf_map_entry:
  assumes "wf s" and "\<And>i. name (f i) = name i" and "\<And>i. ctype (f i) = ctype i"
  shows "wf (s\<lparr>clients := AList.map_entry w f (clients s)\<rparr>)"
proof -
  have "linked (conns s) e" if "e \<in> set (AList.map_entry w f (clients s))" for e
  proof -
    obtain a b where e: "e = (a, b)" by (cases e)
    have "(a, b) \<in> set (clients s) \<or> (\<exists>v. (a, v) \<in> set (clients s) \<and> b = f v)"
      using that unfolding e by (rule set_map_entry_cases)
    then show ?thesis
    proof
      assume "(a, b) \<in> set (clients s)"
      then show ?thesis using assms(1) e by (simp add: wf_alt)
    next
      assume "\<exists>v. (a, v) \<in> set (clients s) \<and> b = f v"
      then obtain v where v: "(a, v) \<in> set (clients s)" "b = f v" by blast
      then have "linked (conns s) (a, v)" using assms(1) by (simp add: wf_alt)
      then show ?thesis unfolding e v(2) by (rule linked_same_id) (rule assms)+
    qed
  qed
  then show ?thesis
    using assms(1) by (simp add: wf_alt distinct_map_entry)
qed

lemma status_update_state:
  "fst (status_update_msg clk s w msg) =
     (case map_of (clients s) w of
        None \<Rightarrow> s
      | Some info0 \<Rightarrow>
          s\<lparr>clients := AList.map_entry w
                          (\<lambda>_. info0\<lparr>status := js_or (msg ''status'') (JStr ''idle''),
                                       task := js_or (msg ''task'') JNull\<rparr>) (clients s),
             reads := Suc (reads s)\<rparr>)"
  by (simp add: status_update_msg_def broadcastParticipants_eq Let_def split: option.splits)

lemma map_entry_const:
  "map_of al w = Some v \<Longrightarrow> AList.map_entry w (\<lambda>_. f v) al = AList.map_entry w f al"
  by (induction al) auto

lemma wf_status_update: 
  assumes "wf s" shows "wf (fst (status_update_msg clk s w msg))"
proof (cases "map_of (clients s) w")
  case None
  then show ?thesis using assms by (simp add: status_update_state)
next
  case (Some info0)
  have "wf (s\<lparr>clients := AList.map_entry w (\<lambda>i. i\<lparr>status := js_or (msg ''status'') (JStr ''idle''),
                          task := js_or (msg ''task'') JNull\<rparr>) (clients s)\<rparr>)"
    by (rule wf_map_entry [OF assms]) simp_all
  then show ?thesis
    using Some map_entry_const [OF Some, of "\<lambda>i. i\<lparr>status := js_or (msg ''status'') (JStr ''idle''),
                          task := js_or (msg ''task'') JNull\<rparr>"]
    by (simp add: status_update_state wf_def)
qed

lemma wf_leaving_entry: "wf s \<Longrightarrow> wf (s\<lparr>clients := AList.map_entry w (\<lambda>info. info\<lparr>leaving := True\<rparr>) (clients s)\<rparr>)"
  by (rule wf_map_entry) simp_all

lemma wf_alive_entry: "wf s \<Longrightarrow> wf (s\<lparr>clients := AList.map_entry w (\<lambda>info. info\<lparr>alive := True\<rparr>) (clients s)\<rparr>)"
  by (rule wf_map_entry) simp_all

lemma wf_chat: "wf s \<Longrightarrow> wf (fst (chat_msg clk s c msg))"
  by (simp add: chat_msg_def Date_now_def)

lemma wf_discovery: "wf s \<Longrightarrow> wf (fst (discovery_msg clk s w c msg))"
  by (simp add: discovery_msg_def Date_now_def wf_leaving_entry Let_def)

lemma wf_leaving: "wf s \<Longrightarrow> wf (fst (leaving_msg s w))"
  by (simp add: leaving_msg_def wf_leaving_entry)

lemma wf_who: "wf s \<Longrightarrow> wf (fst (who_msg clk s w))"
  by (simp add: who_msg_def Date_now_def)

lemma on_message_state:
  "conns s w = Some c \<Longrightarrow>
   fst (on_message clk s w (Parsed msg)) =
     (if msg ''type'' = JStr ''register'' then fst (register_msg clk s w c msg)
      else if msg ''type'' = JStr ''status_update'' then fst (status_update_msg clk s w msg)
      else if msg ''type'' = JStr ''chat'' then fst (chat_msg clk s c msg)
      else if msg ''type'' = JStr ''discovery'' then fst (discovery_msg clk s w c msg)
      else if msg ''type'' = JStr ''leaving'' then fst (leaving_msg s w)
      else if msg ''type'' = JStr ''who'' then fst (who_msg clk s w)
      else s)"
  by (simp add: on_message_def try_message_def case_prod_beta)

lemma wf_message: 
  assumes "wf s" shows "wf (fst (on_message clk s w fr))"
proof (cases "conns s w")
  case None
  then show ?thesis using assms by (simp add: on_message_def)
next
  case (Some c)
  show ?thesis
  proof (cases fr)
    case Unparseable
    then show ?thesis using assms Some by (simp add: on_message_def try_message_def)
  next
    case ParsedNull
    then show ?thesis using assms Some by (simp add: on_message_def try_message_def)
  next
    case (Parsed msg)
    show ?thesis
      unfolding Parsed on_message_state [OF Some]
      using assms
      by (simp add: wf_register wf_status_update wf_who wf_leaving wf_discovery wf_chat)
  qed
qed

lemma wf_pong: "wf s \<Longrightarrow> wf (fst (on_pong s w))"
  by (simp add: on_pong_def wf_alive_entry)

lemma wf_heartbeat: 
  assumes "wf s" shows "wf (fst (heartbeatInterval clk s))"
proof -
  obtain cl cs effs where h: "heartbeat_loop (clients s) (conns s) = (cl, cs, effs)"
    by (cases "heartbeat_loop (clients s) (conns s)") auto
  have st: "fst (heartbeatInterval clk s) = s\<lparr>conns := cs, clients := cl, reads := Suc (reads s)\<rparr>"
    using h by (simp add: heartbeatInterval_def Date_now_def)
  have "\<forall>e \<in> set cl. linked (conns s) e"
    using heartbeat_loop_entries [OF h] assms by (simp add: wf_alt)
  then have "\<forall>e \<in> set cl. linked cs e"
    using heartbeat_loop_conns [OF h] by simp
  then show ?thesis
    using assms heartbeat_loop_keys [OF h] by (simp add: st wf_alt)
qed

lemma wf_participant: "wf s \<Longrightarrow> wf (fst (participantInterval clk s))"
  by (simp add: participantInterval_def broadcastParticipants_eq)

lemma on_close_state:
  "fst (on_close clk s w code) =
     (case map_of (clients s) w of
        None \<Rightarrow> s
      | Some info \<Rightarrow> s\<lparr>clients := AList.delete w (clients s), reads := reads s + 3\<rparr>)"
  by (simp add: on_close_def Date_now_def broadcastParticipants_eq Let_def split: option.splits)

lemma wf_delete:
  assumes "wf s"
  shows "wf (s\<lparr>conns := (conns s)(w := None), clients := AList.delete w (clients s)\<rparr>)"
proof -
  have "linked ((conns s)(w := None)) e" if "e \<in> set (AList.delete w (clients s))" for e
  proof -
    obtain a b where e: "e = (a, b)" by (cases e)
    then have "(a, b) \<in> set (clients s)" "a \<noteq> w" using that set_delete_cases by fast+
    then show ?thesis using assms e by (simp add: wf_alt linked_other)
  qed
  then show ?thesis using assms by (simp add: wf_alt distinct_delete)
qed

lemma dispatch_close_state:
  "conns s w = Some c \<Longrightarrow>
   fst (dispatch clk s (Close w code)) =
     (case map_of (clients s) w of
        None \<Rightarrow> s\<lparr>conns := (conns s)(w := None)\<rparr>
      | Some info \<Rightarrow> s\<lparr>conns := (conns s)(w := None), clients := AList.delete w (clients s),
                        reads := reads s + 3\<rparr>)"
  by (simp add: case_prod_beta on_close_state split: option.splits)

lemma wf_close:
  assumes "wf s" shows "wf (fst (dispatch clk s (Close w code)))"
proof (cases "conns s w")
  case None
  then show ?thesis using assms by simp
next
  case (Some c)
  show ?thesis
  proof (cases "map_of (clients s) w")
    case None
    then have "w \<notin> fst ` set (clients s)" by (simp add: map_of_eq_None_iff)
    then have "AList.delete w (clients s) = clients s" by simp
    then have "wf (s\<lparr>conns := (conns s)(w := None)\<rparr>)" using wf_delete [OF assms, of w] by simp
    then show ?thesis using None
      by (simp add: dispatch_close_state [OF Some] del: dispatch.simps)
  next
    case (Some info)
    then show ?thesis using wf_delete [OF assms, of w]
      by (simp add: dispatch_close_state [OF \<open>conns s w = Some c\<close>] wf_def del: dispatch.simps)
  qed
qed

lemma wf_closing: "wf s \<Longrightarrow> wf (s\<lparr>conns := terminate w (conns s)\<rparr>)"
  by (simp add: wf_alt)

lemma wf_dispatch: 
  assumes "wf s" shows "wf (fst (dispatch clk s ev))"
proof (cases ev)
  case (Connection w)
  then show ?thesis using assms by (simp add: wf_connection split: option.splits)
next
  case (Message w fr)
  then show ?thesis using assms by (simp add: wf_message)
next
  case (Pong w)
  then show ?thesis using assms by (simp add: wf_pong split: option.splits)
next
  case (SocketClosing w)
  then show ?thesis using assms by (simp add: wf_closing)
next
  case (Close w code)
  then show ?thesis using assms wf_close by blast
next
  case HeartbeatTick
  then show ?thesis using assms by (simp add: wf_heartbeat)
next
  case ParticipantTick
  then show ?thesis using assms by (simp add: wf_participant)
qed

lemma wf_run: "wf s \<Longrightarrow> wf (fst (run clk s evs))"
proof (induction evs arbitrary: s)
  case Nil
  then show ?case by simp
next
  case (Cons ev evs)
  have "wf (fst (run clk (fst (dispatch clk s ev)) evs))"
    by (rule Cons.IH) (rule wf_dispatch [OF Cons.prems])
  then show ?case by (simp add: case_prod_beta)
qed

text \<open>What each kind of event does, in closed form.\<close>

lemma dispatch_chat:
  assumes "conns s w = Some c" and "msg ''type'' = JStr ''chat''"
  shows "dispatch clk s (Message w (Parsed msg)) =
           (s\<lparr>reads := Suc (reads s)\<rparr>,
            map (\<lambda>r. Send r (Chat (js_or (msg ''from'') (name (clientInfo c)))
                                   (ctype (clientInfo c)) (msg ''text'') (clk (reads s))))
                (filter (\<lambda>r. readyState_of (conns s) r = 1) (map fst (clients s))))"
  using assms
  by (simp add: on_message_def try_message_def chat_msg_def Date_now_def broadcast_eq)

lemma map_fst_map_entry [simp]: "map fst (AList.map_entry k f al) = map fst al"
  by (induction al) auto

lemma dispatch_discovery:
  assumes "conns s w = Some c" and "msg ''type'' = JStr ''discovery''"
  shows "dispatch clk s (Message w (Parsed msg)) =
           ((if msg ''category'' = JStr ''leaving'' \<and> has (clients s) w
             then s\<lparr>clients := AList.map_entry w (\<lambda>info. info\<lparr>leaving := True\<rparr>) (clients s)\<rparr>
             else s)\<lparr>reads := Suc (reads s)\<rparr>,
            map (\<lambda>r. Send r (Discovery (js_or (msg ''from'') (name (clientInfo c)))
                                        (ctype (clientInfo c)) (msg ''category'') (msg ''text'')
                                        (clk (reads s))))
                (filter (\<lambda>r. readyState_of (conns s) r = 1) (map fst (clients s))))"
  using assms
  by (simp add: on_message_def try_message_def discovery_msg_def Date_now_def broadcast_eq Let_def)

lemma dispatch_leaving:
  assumes "conns s w = Some c" and "msg ''type'' = JStr ''leaving''"
  shows "dispatch clk s (Message w (Parsed msg)) =
           (if has (clients s) w
            then s\<lparr>clients := AList.map_entry w (\<lambda>info. info\<lparr>leaving := True\<rparr>) (clients s)\<rparr>
            else s, [])"
  using assms
  by (simp add: on_message_def try_message_def leaving_msg_def)

lemma dispatch_register:
  assumes "conns s w = Some c" and "msg ''type'' = JStr ''register''"
  shows "dispatch clk s (Message w (Parsed msg)) =
           (let info = \<lparr> name = msg ''name'', ctype = js_or (msg ''agentType'') (JStr ''agent''),
                          alive = True, joinedAt = clk (reads s), status = JStr ''idle'',
                          task = JNull, leaving = False \<rparr>;
                 cs = (conns s)(w \<mapsto> c\<lparr>clientInfo := info\<rparr>);
                 cl = AList.update w info (clients s);
                 rs = filter (\<lambda>r. readyState_of cs r = 1) (map fst cl)
            in (s\<lparr>conns := cs, clients := cl, reads := reads s + 3\<rparr>,
                map (\<lambda>r. Send r (System [Sub (msg ''name''), Lit '' joined''] (clk (reads s + 1)))) rs
                @ map (\<lambda>r. Send r (ParticipantsUpdate (participants_list cl) (clk (reads s + 2)))) rs
                @ [ConsoleLog [Lit ''+ '', Sub (name info), Lit '' ('', Sub (ctype info), Lit '')'']]))"
  using assms
  by (simp add: on_message_def try_message_def register_msg_def Date_now_def broadcast_eq
        broadcastParticipants_eq Let_def)

lemma filter_open_delete:
  "filter (\<lambda>r. readyState_of (cs(w := x)) r = Suc 0) (map fst (AList.delete w cl)) =
   filter (\<lambda>r. readyState_of cs r = Suc 0) (map fst (AList.delete w cl))"
  by (rule filter_cong) (auto simp: readyState_of_def AList.delete_eq)

lemma dispatch_close:
  assumes "conns s w = Some c" and "map_of (clients s) w = Some info"
  shows "dispatch clk s (Close w code) =
           (let duration = round_div_1000 (clk (reads s) - joinedAt info);
                 reason = exitReason code info;
                 cl = AList.delete w (clients s);
                 rs = filter (\<lambda>r. readyState_of (conns s) r = 1) (map fst cl)
            in (s\<lparr>conns := (conns s)(w := None), clients := cl, reads := reads s + 3\<rparr>,
                map (\<lambda>r. Send r (System [Sub (name info), Lit '' '', Sub (JStr reason),
                                          Lit '' (was here '', Sub (JNum duration), Lit ''s)'']
                                         (clk (reads s + 1)))) rs
                @ map (\<lambda>r. Send r (ParticipantsUpdate (participants_list cl) (clk (reads s + 2)))) rs
                @ [ConsoleLog [Lit ''- '', Sub (name info), Lit '' ['', Sub (JStr reason),
                               Lit ''] (code: '', Sub (JNum code), Lit '', duration: '',
                               Sub (JNum duration), Lit ''s)'']]))"
  using assms
  by (simp add: on_close_def Date_now_def broadcast_eq broadcastParticipants_eq Let_def
        filter_open_delete)

lemma dispatch_status_update:
  assumes "conns s w = Some c" and "msg ''type'' = JStr ''status_update''"
  shows "dispatch clk s (Message w (Parsed msg)) =
           (case map_of (clients s) w of
              None \<Rightarrow> (s, [])
            | Some info0 \<Rightarrow>
                (let info = info0\<lparr>status := js_or (msg ''status'') (JStr ''idle''),
                                  task := js_or (msg ''task'') JNull\<rparr>;
                     cl = AList.map_entry w (\<lambda>_. info) (clients s)
                 in (s\<lparr>clients := cl, reads := Suc (reads s)\<rparr>,
                     map (\<lambda>r. Send r (ParticipantsUpdate (participants_list cl) (clk (reads s))))
                         (filter (\<lambda>r. readyState_of (conns s) r = 1) (map fst (clients s)))
                     @ [ConsoleLog ([Lit ''~ '', Sub (name info), Lit '' status: '',
                                     Sub (status info)]
                          @ (if truthy (task info) then [Lit '' - '', Sub (task info)]
                             else [Lit []]))])))"
  using assms
  by (simp add: on_message_def try_message_def status_update_msg_def broadcastParticipants_eq
        Let_def split: option.splits)

lemma dispatch_other:
  assumes "conns s w = Some c"
    and "msg ''type'' \<noteq> JStr ''register''" and "msg ''type'' \<noteq> JStr ''status_update''"
    and "msg ''type'' \<noteq> JStr ''chat''" and "msg ''type'' \<noteq> JStr ''discovery''"
    and "msg ''type'' \<noteq> JStr ''leaving''" and "msg ''type'' \<noteq> JStr ''who''"
  shows "dispatch clk s (Message w (Parsed msg)) = (s, [])"
  using assms by (simp add: on_message_def try_message_def)

lemma dispatch_who:
  assumes "conns s w = Some c" and "msg ''type'' = JStr ''who''"
  shows "dispatch clk s (Message w (Parsed msg)) =
           (s\<lparr>reads := Suc (reads s)\<rparr>,
            [Send w (WhoResponse (online_list (clients s)) (clk (reads s)))])"
  using assms by (simp add: on_message_def try_message_def who_msg_def Date_now_def)

lemma dispatch_close_unregistered:
  assumes "conns s w = Some c" and "map_of (clients s) w = None"
  shows "dispatch clk s (Close w code) = (s\<lparr>conns := (conns s)(w := None)\<rparr>, [])"
  using assms by (simp add: on_close_def)

lemma heartbeat_loop_no_send:
  "heartbeat_loop cl cs = (cl', cs', effs) \<Longrightarrow> Send r m \<notin> set effs"
  by (induction cl cs arbitrary: cl' cs' effs rule: heartbeat_loop.induct)
     (auto split: if_splits prod.splits)

lemma heartbeat_no_send: "Send r m \<notin> set (snd (heartbeatInterval clk s))"
proof -
  obtain cl cs effs where h: "heartbeat_loop (clients s) (conns s) = (cl, cs, effs)"
    by (cases "heartbeat_loop (clients s) (conns s)") auto
  then show ?thesis
    using heartbeat_loop_no_send [OF h] by (simp add: heartbeatInterval_def Date_now_def)
qed

lemma snapshot_message:
  assumes "on_message clk s w fr = (s', effs)"
    and "Send r (ParticipantsUpdate ps t) \<in> set effs"
  shows "ps = participants_list (clients s')"
proof (cases "conns s w")
  case None
  then show ?thesis using assms by (simp add: on_message_def)
next
  case (Some c)
  note d = assms(1) [folded dispatch.simps(2)]
  show ?thesis
  proof (cases fr)
    case Unparseable
    then show ?thesis using assms Some by (auto simp add: on_message_def try_message_def)
  next
    case ParsedNull
    then show ?thesis using assms Some by (auto simp add: on_message_def try_message_def)
  next
    case (Parsed msg)
    consider "msg ''type'' = JStr ''register''" | "msg ''type'' = JStr ''status_update''"
      | "msg ''type'' = JStr ''chat''" | "msg ''type'' = JStr ''discovery''"
      | "msg ''type'' = JStr ''leaving''" | "msg ''type'' = JStr ''who''"
      | "msg ''type'' \<noteq> JStr ''register''" "msg ''type'' \<noteq> JStr ''status_update''"
        "msg ''type'' \<noteq> JStr ''chat''" "msg ''type'' \<noteq> JStr ''discovery''"
        "msg ''type'' \<noteq> JStr ''leaving''" "msg ''type'' \<noteq> JStr ''who''"
      by blast
    then show ?thesis
    proof cases
      case 1
      show ?thesis
        using d assms(2) unfolding Parsed dispatch_register [where msg = msg, OF Some 1]
        by (auto simp: Let_def)
    next
      case 2
      show ?thesis
        using d assms(2) unfolding Parsed dispatch_status_update [where msg = msg, OF Some 2]
        by (auto simp: Let_def split: option.splits)
    next
      case 3
      show ?thesis
        using d assms(2) unfolding Parsed dispatch_chat [where msg = msg, OF Some 3] by auto
    next
      case 4
      show ?thesis
        using d assms(2) unfolding Parsed dispatch_discovery [where msg = msg, OF Some 4] by auto
    next
      case 5
      show ?thesis
        using d assms(2) unfolding Parsed dispatch_leaving [where msg = msg, OF Some 5] by auto
    next
      case 6
      show ?thesis
        using d assms(2) unfolding Parsed dispatch_who [where msg = msg, OF Some 6] by auto
    next
      case 7
      show ?thesis
        using d assms(2) unfolding Parsed dispatch_other [where msg = msg, OF Some 7] by auto
    qed
  qed
qed

lemma snapshot_close:
  assumes "dispatch clk s (Close w code) = (s', effs)"
    and "Send r (ParticipantsUpdate ps t) \<in> set effs"
  shows "ps = participants_list (clients s')"
proof (cases "conns s w")
  case None
  then show ?thesis using assms by simp
next
  case (Some c)
  show ?thesis
  proof (cases "map_of (clients s) w")
    case None
    show ?thesis
      using assms unfolding dispatch_close_unregistered [OF Some None] by auto
  next
    case (Some info)
    show ?thesis
      using assms unfolding dispatch_close [OF \<open>conns s w = Some c\<close> Some]
      by (auto simp: Let_def)
  qed
qed

lemma snapshot_sound:
  assumes "dispatch clk s ev = (s', effs)"
    and "Send r (ParticipantsUpdate ps t) \<in> set effs"
  shows "ps = participants_list (clients s')"
proof (cases ev)
  case (Connection w)
  then show ?thesis using assms by (auto simp: on_connection_def Date_now_def split: option.splits)
next
  case (Message w fr)
  then show ?thesis using assms snapshot_message by simp
next
  case (Pong w)
  then show ?thesis using assms by (auto simp: on_pong_def split: option.splits if_splits)
next
  case (SocketClosing w)
  then show ?thesis using assms by auto
next
  case (Close w code)
  then show ?thesis using assms snapshot_close by simp
next
  case HeartbeatTick
  then show ?thesis using assms heartbeat_no_send [of r _ clk s] by auto
next
  case ParticipantTick
  then show ?thesis using assms
    by (auto simp: participantInterval_def broadcastParticipants_eq split: if_splits)
qed

lemma has_iff: "map_of cl w = Some info \<Longrightarrow> has cl w"
  by (simp add: has_def)

lemma filter_open_update_info:
  "cs w = Some c \<Longrightarrow>
   filter (\<lambda>r. readyState_of (cs(w \<mapsto> c\<lparr>clientInfo := i\<rparr>)) r = Suc 0) ks =
   filter (\<lambda>r. readyState_of cs r = Suc 0) ks"
  by (rule filter_cong) (auto simp: readyState_of_def)

lemma update_keys_present:
  "map_of cl w = Some old \<Longrightarrow> map fst (AList.update w info cl) = map fst cl"
  by (induction cl) (auto split: if_splits)

lemma wf_lookup:
  assumes "wf s" and "map_of (clients s) w = Some info"
  shows "\<exists>c. conns s w = Some c \<and> name (clientInfo c) = name info \<and> ctype (clientInfo c) = ctype info"
proof -
  have "(w, info) \<in> set (clients s)" using assms(2) by (rule map_of_SomeD)
  then have "linked (conns s) (w, info)" using assms(1) by (simp add: wf_alt)
  then show ?thesis by (simp add: linked_def split: option.splits)
qed

lemma close_gone:
  "conns (fst (dispatch clk s (Close w code))) w = None
   \<and> map_of (clients (fst (dispatch clk s (Close w code)))) w = None
   \<and> Send w m \<notin> set (snd (dispatch clk s (Close w code)))"
  if "\<forall>info. map_of (clients s) w = Some info \<longrightarrow> conns s w \<noteq> None"
proof (cases "conns s w")
  case None
  then have "map_of (clients s) w = None" using that by (cases "map_of (clients s) w") auto
  then show ?thesis using None by simp
next
  case (Some c)
  show ?thesis
  proof (cases "map_of (clients s) w")
    case None
    show ?thesis
      unfolding dispatch_close_unregistered [OF Some None] using None by simp
  next
    case (Some info)
    have k: "w \<notin> set (map fst (AList.delete w (clients s)))"
      by (simp add: delete_keys)
    show ?thesis
      unfolding dispatch_close [OF \<open>conns s w = Some c\<close> Some] Let_def
      using k by (auto simp add: delete_conv')
  qed
qed

lemma close_snapshot:
  assumes "Send r (ParticipantsUpdate ps t) \<in> set (snd (dispatch clk s (Close w code)))"
  shows "ps = participants_list (AList.delete w (clients s))"
proof (cases "conns s w")
  case None
  then show ?thesis using assms by simp
next
  case (Some c)
  show ?thesis
  proof (cases "map_of (clients s) w")
    case None
    show ?thesis
      using assms unfolding dispatch_close_unregistered [OF Some None] by simp
  next
    case (Some info)
    show ?thesis
      using assms unfolding dispatch_close [OF \<open>conns s w = Some c\<close> Some] Let_def
      by auto
  qed
qed

lemma register_joined:
  assumes "conns s w = Some c" and "msg ''type'' = JStr ''register''"
  shows "\<exists>info. map_of (clients (fst (dispatch clk s (Message w (Parsed msg))))) w = Some info
           \<and> participant_of info
                \<in> set (participants_list (clients (fst (dispatch clk s (Message w (Parsed msg))))))
           \<and> (\<forall>r ps t. Send r (ParticipantsUpdate ps t)
                            \<in> set (snd (dispatch clk s (Message w (Parsed msg)))) \<longrightarrow>
                 ps = participants_list (clients (fst (dispatch clk s (Message w (Parsed msg))))))
           \<and> (readyState c = 1 \<longrightarrow>
                 Send w (ParticipantsUpdate
                           (participants_list (clients (fst (dispatch clk s (Message w (Parsed msg))))))
                           (clk (reads s + 2)))
                   \<in> set (snd (dispatch clk s (Message w (Parsed msg)))))"
proof -
  define info where "info = \<lparr> name = msg ''name'', ctype = js_or (msg ''agentType'') (JStr ''agent''),
                       alive = True, joinedAt = clk (reads s), status = JStr ''idle'',
                       task = JNull, leaving = False \<rparr>"
  have m: "map_of (AList.update w info (clients s)) w = Some info"
    by (simp add: update_conv')
  then have "(w, info) \<in> set (AList.update w info (clients s))"
    by (rule map_of_SomeD)
  then have p: "participant_of info \<in> set (participants_list (AList.update w info (clients s)))"
    by (force simp add: participants_list_def)
  have k: "w \<in> set (map fst (AList.update w info (clients s)))"
    using m by (simp add: update_keys)
  have o: "readyState c = 1 \<Longrightarrow> readyState_of ((conns s)(w \<mapsto> c\<lparr>clientInfo := info\<rparr>)) w = 1"
    by (simp add: readyState_of_def)
  show ?thesis
    unfolding dispatch_register [where msg = msg, OF assms] Let_def info_def [symmetric]
    using m p k o by (intro exI [of _ info]) auto
qed

text \<open>The definitions a sample run unfolds.\<close>

lemmas eval_defs =
  init_def obj_def tick_clock_def member_def on_connection_def on_message_def try_message_def
  register_msg_def on_pong_def has_def heartbeatInterval_def terminate_def on_close_def
  Date_now_def broadcast_eq broadcastParticipants_eq readyState_of_def exitReason_def
  round_div_1000_def js_or_def Let_def


lemma room_reachable: "fst (run tick_clock init room_events) = room"
  by (simp add: room_events_def init_def room_def member_def tick_clock_def obj_def
        on_connection_def on_message_def try_message_def register_msg_def Date_now_def
        broadcast_eq broadcastParticipants_eq terminate_def js_or_def readyState_of_def
        Let_def)

text \<open>The timestamps of a run are clock readings, in the order they were taken.\<close>

lemma sent_append [simp]: "sent (a @ b) = sent a @ sent b"
  by (induction a rule: sent.induct) auto

lemma sent_map_Send [simp]: "sent (map (\<lambda>r. Send r m) rs) = replicate (length rs) m"
  by (induction rs) auto




















subsection \<open>The who query\<close>

text \<open>
  C5. A \<^verbatim>\<open>who\<close> message is answered with exactly one send, to the socket that asked:
  a \<^verbatim>\<open>who_response\<close> with one entry (name, type, joinedAt) per entry of the registry,
  in registry order, stamped with the clock. The registry is left as it was; sockets that
  have not registered are not in the registry and so not in the list.
\<close>

theorem who_reply:
  assumes "conns s w = Some c" and "msg ''type'' = JStr ''who''"
  shows "dispatch clk s (Message w (Parsed msg)) =
           (s\<lparr>reads := Suc (reads s)\<rparr>,
            [Send w (WhoResponse
                       (map (\<lambda>(k, info). \<lparr> w_name = name info, w_type = ctype info,
                                              w_joinedAt = joinedAt info \<rparr>) (clients s))
                       (clk (reads s)))])"
  using assms by (simp add: on_message_def try_message_def who_msg_def Date_now_def online_list_def)

theorem who_reply_witness:
  "dispatch tick_clock room (Message 3 (Parsed (obj [(''type'', JStr ''who'')]))) =
     (room\<lparr>reads := 10\<rparr>,
      [Send 3 (WhoResponse
                 [\<lparr> w_name = JStr ''ann'', w_type = JStr ''agent'', w_joinedAt = 2000 \<rparr>,
                  \<lparr> w_name = JStr ''bob'', w_type = JStr ''agent'', w_joinedAt = 6000 \<rparr>]
                 9000)])"
proof -
  have c: "conns room 3 = Some \<lparr> clientInfo = (member ''unknown'' 0)\<lparr>ctype := JStr ''unknown''\<rparr>,
                                  readyState = 1 \<rparr>"
    by (simp add: room_def)
  have t: "obj [(''type'', JStr ''who'')] ''type'' = JStr ''who''"
    by (simp add: obj_def)
  show ?thesis
    using who_reply [where s = room and w = 3 and msg = "obj [(''type'', JStr ''who'')]"
                       and clk = tick_clock, OF c t]
    by (simp add: room_def member_def tick_clock_def)
qed

subsection \<open>Malformed frames\<close>





subsection \<open>Fan-out of chat and discovery messages\<close>

text \<open>
  C2, as the code has it. In every state the broker can reach, a \<^verbatim>\<open>chat\<close> or
  \<^verbatim>\<open>discovery\<close> message from a connected socket is sent, once each and in registry
  order, to exactly the sockets that are in the registry and whose ready state is OPEN at
  that moment: the message carries the text (and category) as received, the sender's name
  unless the message brings its own \<^verbatim>\<open>from\<close>, the sender's role, and the clock's
  reading as timestamp. A registered socket that is not OPEN is skipped and the others are
  still served; nothing is kept for later (the new state differs from the old one only in
  the clock count and, for a discovery of category leaving, the sender's leaving flag).
  The sender is among the recipients when it is registered and OPEN; for a registered
  sender the role and name attached are those of its record.
\<close>

theorem fanout_registered_open:
  assumes "s = fst (run clk init evs)" and "conns s w = Some c"
  shows "(msg ''type'' = JStr ''chat'' \<longrightarrow>
            dispatch clk s (Message w (Parsed msg)) =
              (s\<lparr>reads := Suc (reads s)\<rparr>,
               map (\<lambda>r. Send r (Chat (js_or (msg ''from'') (name (clientInfo c)))
                                      (ctype (clientInfo c)) (msg ''text'') (clk (reads s))))
                   (filter (\<lambda>r. readyState_of (conns s) r = 1) (map fst (clients s)))))
       \<and> (msg ''type'' = JStr ''discovery'' \<longrightarrow>
            snd (dispatch clk s (Message w (Parsed msg))) =
               map (\<lambda>r. Send r (Discovery (js_or (msg ''from'') (name (clientInfo c)))
                                           (ctype (clientInfo c)) (msg ''category'')
                                           (msg ''text'') (clk (reads s))))
                   (filter (\<lambda>r. readyState_of (conns s) r = 1) (map fst (clients s)))
            \<and> conns (fst (dispatch clk s (Message w (Parsed msg)))) = conns s
            \<and> map fst (clients (fst (dispatch clk s (Message w (Parsed msg))))) = map fst (clients s))
       \<and> distinct (map fst (clients s))
       \<and> (\<forall>info. map_of (clients s) w = Some info \<longrightarrow>
            name (clientInfo c) = name info \<and> ctype (clientInfo c) = ctype info)"
proof -
  have w: "wf s" unfolding assms(1) by (rule wf_run) (rule wf_init)
  have a: "msg ''type'' = JStr ''chat'' \<longrightarrow>
            dispatch clk s (Message w (Parsed msg)) =
              (s\<lparr>reads := Suc (reads s)\<rparr>,
               map (\<lambda>r. Send r (Chat (js_or (msg ''from'') (name (clientInfo c)))
                                      (ctype (clientInfo c)) (msg ''text'') (clk (reads s))))
                   (filter (\<lambda>r. readyState_of (conns s) r = 1) (map fst (clients s))))"
    using dispatch_chat [OF assms(2)] by blast
  have b: "msg ''type'' = JStr ''discovery'' \<longrightarrow>
            snd (dispatch clk s (Message w (Parsed msg))) =
               map (\<lambda>r. Send r (Discovery (js_or (msg ''from'') (name (clientInfo c)))
                                           (ctype (clientInfo c)) (msg ''category'')
                                           (msg ''text'') (clk (reads s))))
                   (filter (\<lambda>r. readyState_of (conns s) r = 1) (map fst (clients s)))
            \<and> conns (fst (dispatch clk s (Message w (Parsed msg)))) = conns s
            \<and> map fst (clients (fst (dispatch clk s (Message w (Parsed msg))))) = map fst (clients s)"
    by (simp add: dispatch_discovery [OF assms(2)] del: dispatch.simps)
  have d: "distinct (map fst (clients s))" using w by (simp add: wf_def)
  have e: "\<forall>info. map_of (clients s) w = Some info \<longrightarrow>
            name (clientInfo c) = name info \<and> ctype (clientInfo c) = ctype info"
    using wf_lookup [OF w] assms(2) by fastforce
  from a b d e show ?thesis by blast
qed


theorem fanout_registered_open_witness:
  "dispatch tick_clock room
      (Message 1 (Parsed (obj [(''type'', JStr ''chat''), (''text'', JStr ''hi'')]))) =
     (room\<lparr>reads := 10\<rparr>,
      [Send 1 (Chat (JStr ''ann'') (JStr ''agent'') (JStr ''hi'') 9000)])"
proof -
  have r: "room = fst (run tick_clock init room_events)"
    by (simp add: room_reachable)
  have c: "conns room 1 = Some \<lparr> clientInfo = member ''ann'' 2000, readyState = 1 \<rparr>"
    by (simp add: room_def)
  show ?thesis
    using fanout_registered_open [OF r c,
            where msg = "obj [(''type'', JStr ''chat''), (''text'', JStr ''hi'')]"]
    by (simp add: obj_def room_def member_def tick_clock_def js_or_def readyState_of_def)
qed


text \<open>
  The claim as stated, "to every currently-connected connection, including the sender",
  fails for sockets that are connected and have not registered: in the sample room socket 3
  is connected and OPEN; when it sends a chat message the only send goes to socket 1, and
  when socket 1 sends one, socket 3 is not served either.
\<close>

theorem unregistered_sender_not_served:
  "readyState_of (conns (fst (run tick_clock init room_events))) 3 = 1
   \<and> dispatch tick_clock (fst (run tick_clock init room_events))
        (Message 3 (Parsed (obj [(''type'', JStr ''chat''), (''text'', JStr ''hi'')]))) =
       (room\<lparr>reads := 10\<rparr>,
        [Send 1 (Chat (JStr ''unknown'') (JStr ''unknown'') (JStr ''hi'') 9000)])
   \<and> dispatch tick_clock (fst (run tick_clock init room_events))
        (Message 1 (Parsed (obj [(''type'', JStr ''chat''), (''text'', JStr ''hi'')]))) =
       (room\<lparr>reads := 10\<rparr>,
        [Send 1 (Chat (JStr ''ann'') (JStr ''agent'') (JStr ''hi'') 9000)])"
  by (simp add: room_reachable room_def member_def tick_clock_def obj_def on_message_def
        try_message_def chat_msg_def Date_now_def broadcast_eq js_or_def readyState_of_def)

subsection \<open>Participants snapshots\<close>

text \<open>
  C9. Whatever the event, every \<^verbatim>\<open>participants_update\<close> the broker sends while
  handling it lists the registry as it stands after the event, one entry per record and in
  registry order. The entry of a record whose type is the string \<^verbatim>\<open>user\<close> has
  status \<^verbatim>\<open>observer\<close>, whatever status the record stores; the entry of any other
  record has the stored status, or \<^verbatim>\<open>idle\<close> when the stored status is unset
  (falsy); the task is the stored task, or \<^verbatim>\<open>null\<close> when it is unset (falsy).
\<close>

theorem snapshot_status:
  assumes "dispatch clk s ev = (s', effs)"
    and "Send r (ParticipantsUpdate ps t) \<in> set effs"
  shows "ps = map (\<lambda>(w, info).
                 \<lparr> p_name = name info,
                   p_type = ctype info,
                   p_status = (if ctype info = JStr ''user'' then JStr ''observer''
                               else if truthy (status info) then status info
                               else JStr ''idle''),
                   p_task = (if truthy (task info) then task info else JNull),
                   p_joinedAt = joinedAt info \<rparr>) (clients s')"
proof -
  have "ps = participants_list (clients s')"
    using assms by (rule snapshot_sound)
  moreover have "participant_of info =
                 \<lparr> p_name = name info,
                   p_type = ctype info,
                   p_status = (if ctype info = JStr ''user'' then JStr ''observer''
                               else if truthy (status info) then status info
                               else JStr ''idle''),
                   p_task = (if truthy (task info) then task info else JNull),
                   p_joinedAt = joinedAt info \<rparr>" for info
    by (auto simp add: participant_of_def js_or_def)
  ultimately show ?thesis
    by (simp add: participants_list_def)
qed



theorem snapshot_status_witness:
  "Send 1 (ParticipantsUpdate
             [\<lparr> p_name = JStr ''ann'', p_type = JStr ''agent'', p_status = JStr ''idle'',
                 p_task = JNull, p_joinedAt = 2000 \<rparr>,
              \<lparr> p_name = JStr ''bob'', p_type = JStr ''agent'', p_status = JStr ''idle'',
                 p_task = JNull, p_joinedAt = 6000 \<rparr>,
              \<lparr> p_name = JStr ''eve'', p_type = JStr ''user'', p_status = JStr ''observer'',
                 p_task = JNull, p_joinedAt = 9000 \<rparr>] 11000)
     \<in> set (snd (dispatch tick_clock room eve_joins))
   \<and> [\<lparr> p_name = JStr ''ann'', p_type = JStr ''agent'', p_status = JStr ''idle'',
          p_task = JNull, p_joinedAt = 2000 \<rparr>,
       \<lparr> p_name = JStr ''bob'', p_type = JStr ''agent'', p_status = JStr ''idle'',
          p_task = JNull, p_joinedAt = 6000 \<rparr>,
       \<lparr> p_name = JStr ''eve'', p_type = JStr ''user'', p_status = JStr ''observer'',
          p_task = JNull, p_joinedAt = 9000 \<rparr>] =
      map (\<lambda>(w, info).
                 \<lparr> p_name = name info,
                   p_type = ctype info,
                   p_status = (if ctype info = JStr ''user'' then JStr ''observer''
                               else if truthy (status info) then status info
                               else JStr ''idle''),
                   p_task = (if truthy (task info) then task info else JNull),
                   p_joinedAt = joinedAt info \<rparr>)
          (clients (fst (dispatch tick_clock room eve_joins)))
   \<and> map (status \<circ> snd) (clients (fst (dispatch tick_clock room eve_joins))) =
       [JStr ''idle'', JStr ''idle'', JStr ''idle'']"
proof -
  have c: "conns room 3 = Some \<lparr> clientInfo = (member ''unknown'' 0)\<lparr>ctype := JStr ''unknown''\<rparr>,
                                  readyState = 1 \<rparr>"
    by (simp add: room_def)
  have t: "obj [(''type'', JStr ''register''), (''name'', JStr ''eve''),
                (''agentType'', JStr ''user'')] ''type'' = JStr ''register''"
    by (simp add: obj_def)
  have d: "dispatch tick_clock room eve_joins =
             (fst (dispatch tick_clock room eve_joins), snd (dispatch tick_clock room eve_joins))"
    by simp
  have m: "Send 1 (ParticipantsUpdate
             [\<lparr> p_name = JStr ''ann'', p_type = JStr ''agent'', p_status = JStr ''idle'',
                 p_task = JNull, p_joinedAt = 2000 \<rparr>,
              \<lparr> p_name = JStr ''bob'', p_type = JStr ''agent'', p_status = JStr ''idle'',
                 p_task = JNull, p_joinedAt = 6000 \<rparr>,
              \<lparr> p_name = JStr ''eve'', p_type = JStr ''user'', p_status = JStr ''observer'',
                 p_task = JNull, p_joinedAt = 9000 \<rparr>] 11000)
     \<in> set (snd (dispatch tick_clock room eve_joins))"
    unfolding eve_joins_def
      dispatch_register [where msg = "obj [(''type'', JStr ''register''), (''name'', JStr ''eve''),
                (''agentType'', JStr ''user'')]", OF c t]
    by (simp add: room_def member_def tick_clock_def obj_def js_or_def readyState_of_def
          participants_list_def participant_of_def Let_def)
  have s: "map (status \<circ> snd) (clients (fst (dispatch tick_clock room eve_joins))) =
             [JStr ''idle'', JStr ''idle'', JStr ''idle'']"
    unfolding eve_joins_def
      dispatch_register [where msg = "obj [(''type'', JStr ''register''), (''name'', JStr ''eve''),
                (''agentType'', JStr ''user'')]", OF c t]
    by (simp add: room_def member_def Let_def)
  from snapshot_status [OF d m] m s show ?thesis
    by blast
qed

subsection \<open>The leaving flag\<close>

text \<open>
  C8. For a registered socket: a \<^verbatim>\<open>leaving\<close> message sets the leaving flag of the
  sender's record and has no effect at all besides (nothing is sent, nothing is logged); a
  \<^verbatim>\<open>discovery\<close> message of category \<^verbatim>\<open>leaving\<close> sets the same flag and is
  broadcast like any other discovery message. In both cases the registry keeps its keys
  and their order, every other record is what it was, and the sender's record differs
  from the old one in the leaving flag only.
\<close>

theorem leaving_flag_only:
  assumes "conns s w = Some c" and "map_of (clients s) w = Some info"
  shows "(msg ''type'' = JStr ''leaving'' \<longrightarrow>
            dispatch clk s (Message w (Parsed msg)) =
              (s\<lparr>clients := AList.map_entry w (\<lambda>i. i\<lparr>leaving := True\<rparr>) (clients s)\<rparr>, []))
       \<and> (msg ''type'' = JStr ''discovery'' \<and> msg ''category'' = JStr ''leaving'' \<longrightarrow>
            dispatch clk s (Message w (Parsed msg)) =
              (s\<lparr>clients := AList.map_entry w (\<lambda>i. i\<lparr>leaving := True\<rparr>) (clients s),
                 reads := Suc (reads s)\<rparr>,
               map (\<lambda>r. Send r (Discovery (js_or (msg ''from'') (name (clientInfo c)))
                                           (ctype (clientInfo c)) (JStr ''leaving'')
                                           (msg ''text'') (clk (reads s))))
                   (filter (\<lambda>r. readyState_of (conns s) r = 1) (map fst (clients s)))))
       \<and> map_of (AList.map_entry w (\<lambda>i. i\<lparr>leaving := True\<rparr>) (clients s)) =
           (map_of (clients s))(w \<mapsto> info\<lparr>leaving := True\<rparr>)
       \<and> map fst (AList.map_entry w (\<lambda>i. i\<lparr>leaving := True\<rparr>) (clients s)) =
           map fst (clients s)
       \<and> info\<lparr>leaving := True\<rparr> =
           \<lparr> name = name info, ctype = ctype info, alive = alive info,
             joinedAt = joinedAt info, status = status info, task = task info,
             leaving = True \<rparr>"
proof -
  have h: "has (clients s) w" using assms(2) by (rule has_iff)
  have a: "msg ''type'' = JStr ''leaving'' \<longrightarrow>
            dispatch clk s (Message w (Parsed msg)) =
              (s\<lparr>clients := AList.map_entry w (\<lambda>i. i\<lparr>leaving := True\<rparr>) (clients s)\<rparr>, [])"
    using dispatch_leaving [where msg = msg, OF assms(1)] h by simp
  have b: "msg ''type'' = JStr ''discovery'' \<and> msg ''category'' = JStr ''leaving'' \<longrightarrow>
            dispatch clk s (Message w (Parsed msg)) =
              (s\<lparr>clients := AList.map_entry w (\<lambda>i. i\<lparr>leaving := True\<rparr>) (clients s),
                 reads := Suc (reads s)\<rparr>,
               map (\<lambda>r. Send r (Discovery (js_or (msg ''from'') (name (clientInfo c)))
                                           (ctype (clientInfo c)) (JStr ''leaving'')
                                           (msg ''text'') (clk (reads s))))
                   (filter (\<lambda>r. readyState_of (conns s) r = 1) (map fst (clients s))))"
    using dispatch_discovery [where msg = msg, OF assms(1)] h by simp
  have m: "map_of (AList.map_entry w (\<lambda>i. i\<lparr>leaving := True\<rparr>) (clients s)) =
           (map_of (clients s))(w \<mapsto> info\<lparr>leaving := True\<rparr>)"
    using assms(2) by (simp add: map_of_map_entry)
  have k: "map fst (AList.map_entry w (\<lambda>i. i\<lparr>leaving := True\<rparr>) (clients s)) =
           map fst (clients s)"
    by simp
  have r: "info\<lparr>leaving := True\<rparr> =
           \<lparr> name = name info, ctype = ctype info, alive = alive info,
             joinedAt = joinedAt info, status = status info, task = task info,
             leaving = True \<rparr>"
    by simp
  from a b m k r show ?thesis by blast
qed

theorem leaving_flag_only_witness:
  "dispatch tick_clock room (Message 1 (Parsed (obj [(''type'', JStr ''leaving'')]))) =
     (room\<lparr>clients := [(1, (member ''ann'' 2000)\<lparr>leaving := True\<rparr>), (2, member ''bob'' 6000)]\<rparr>,
      [])
   \<and> dispatch tick_clock room
        (Message 1 (Parsed (obj [(''type'', JStr ''discovery''), (''category'', JStr ''leaving''),
                                 (''text'', JStr ''bye'')]))) =
     (room\<lparr>clients := [(1, (member ''ann'' 2000)\<lparr>leaving := True\<rparr>), (2, member ''bob'' 6000)],
           reads := 10\<rparr>,
      [Send 1 (Discovery (JStr ''ann'') (JStr ''agent'') (JStr ''leaving'') (JStr ''bye'') 9000)])"
proof -
  have c: "conns room 1 = Some \<lparr> clientInfo = member ''ann'' 2000, readyState = 1 \<rparr>"
    by (simp add: room_def)
  have i: "map_of (clients room) 1 = Some (member ''ann'' 2000)"
    by (simp add: room_def)
  show ?thesis
    using leaving_flag_only [OF c i, where msg = "obj [(''type'', JStr ''leaving'')]"
                                       and clk = tick_clock]
          leaving_flag_only [OF c i, where msg = "obj [(''type'', JStr ''discovery''),
                                         (''category'', JStr ''leaving''), (''text'', JStr ''bye'')]"
                                       and clk = tick_clock]
    by (simp add: obj_def room_def member_def tick_clock_def js_or_def readyState_of_def)
qed

subsection \<open>Registering again\<close>

text \<open>
  C10. A \<^verbatim>\<open>register\<close> message on a socket that is already in the registry puts a
  freshly built record in the place of the old one, whatever the old one held: name and
  type from the message (type \<^verbatim>\<open>agent\<close> when the message gives none), status
  \<^verbatim>\<open>idle\<close>, task \<^verbatim>\<open>null\<close>, alive, not leaving, and joinedAt the clock's
  reading at this registration. The registry keeps its keys and their order, and the other
  records. A \<^verbatim>\<open>joined\<close> notice and then a snapshot of the new registry go to every
  registered socket that is OPEN. When the socket closes right after, the duration in its
  notice is counted from this registration, and the exit reason is computed from the new
  record.
\<close>

theorem reregister_replaces_record:
  assumes "conns s w = Some c" and "map_of (clients s) w = Some old"
    and "msg ''type'' = JStr ''register''"
  shows "let info = \<lparr> name = msg ''name'', ctype = js_or (msg ''agentType'') (JStr ''agent''),
                       alive = True, joinedAt = clk (reads s), status = JStr ''idle'',
                       task = JNull, leaving = False \<rparr>;
             rs = filter (\<lambda>r. readyState_of (conns s) r = 1) (map fst (clients s));
             s' = fst (dispatch clk s (Message w (Parsed msg)));
             rs' = filter (\<lambda>r. readyState_of (conns s) r = 1)
                          (map fst (AList.delete w (clients s)));
             duration = round_div_1000 (clk (reads s + 3) - clk (reads s))
         in snd (dispatch clk s (Message w (Parsed msg))) =
              map (\<lambda>r. Send r (System [Sub (msg ''name''), Lit '' joined''] (clk (reads s + 1)))) rs
              @ map (\<lambda>r. Send r (ParticipantsUpdate (participants_list (clients s'))
                                                      (clk (reads s + 2)))) rs
              @ [ConsoleLog [Lit ''+ '', Sub (name info), Lit '' ('', Sub (ctype info), Lit '')'']]
          \<and> map_of (clients s') = (map_of (clients s))(w \<mapsto> info)
          \<and> map fst (clients s') = map fst (clients s)
          \<and> conns s' = (conns s)(w \<mapsto> c\<lparr>clientInfo := info\<rparr>)
          \<and> reads s' = reads s + 3
          \<and> (\<forall>code.
                snd (dispatch clk s' (Close w code)) =
                  map (\<lambda>r. Send r (System [Sub (msg ''name''), Lit '' '',
                                            Sub (JStr (exitReason code info)),
                                            Lit '' (was here '', Sub (JNum duration), Lit ''s)'']
                                           (clk (reads s + 4)))) rs'
                  @ map (\<lambda>r. Send r (ParticipantsUpdate
                                        (participants_list (AList.delete w (clients s)))
                                        (clk (reads s + 5)))) rs'
                  @ [ConsoleLog [Lit ''- '', Sub (msg ''name''), Lit '' ['',
                                 Sub (JStr (exitReason code info)),
                                 Lit ''] (code: '', Sub (JNum code), Lit '', duration: '',
                                 Sub (JNum duration), Lit ''s)'']])"
proof -
  define info where "info = \<lparr> name = msg ''name'', ctype = js_or (msg ''agentType'') (JStr ''agent''),
                       alive = True, joinedAt = clk (reads s), status = JStr ''idle'',
                       task = JNull, leaving = False \<rparr>"
  define s' where "s' = s\<lparr>conns := (conns s)(w \<mapsto> c\<lparr>clientInfo := info\<rparr>),
                          clients := AList.update w info (clients s), reads := reads s + 3\<rparr>"
  have k: "map fst (AList.update w info (clients s)) = map fst (clients s)"
    using assms(2) by (rule update_keys_present)
  have d: "dispatch clk s (Message w (Parsed msg)) =
             (s',
              map (\<lambda>r. Send r (System [Sub (msg ''name''), Lit '' joined''] (clk (reads s + 1))))
                  (filter (\<lambda>r. readyState_of (conns s) r = 1) (map fst (clients s)))
              @ map (\<lambda>r. Send r (ParticipantsUpdate (participants_list (clients s'))
                                                      (clk (reads s + 2))))
                  (filter (\<lambda>r. readyState_of (conns s) r = 1) (map fst (clients s)))
              @ [ConsoleLog [Lit ''+ '', Sub (name info), Lit '' ('', Sub (ctype info), Lit '')'']])"
    unfolding dispatch_register [where msg = msg, OF assms(1) assms(3)] Let_def
    by (simp add: info_def [symmetric] s'_def k filter_open_update_info [where cs = "conns s", OF assms(1)])
  have c': "conns s' w = Some (c\<lparr>clientInfo := info\<rparr>)"
    by (simp add: s'_def)
  have i': "map_of (clients s') w = Some info"
    by (simp add: s'_def update_conv')
  have cl: "\<forall>code. 
                snd (dispatch clk s' (Close w code)) =
                  map (\<lambda>r. Send r (System [Sub (msg ''name''), Lit '' '',
                                            Sub (JStr (exitReason code info)),
                                            Lit '' (was here '',
                                            Sub (JNum (round_div_1000 (clk (reads s + 3) - clk (reads s)))),
                                            Lit ''s)'']
                                           (clk (reads s + 4))))
                      (filter (\<lambda>r. readyState_of (conns s) r = 1)
                          (map fst (AList.delete w (clients s))))
                  @ map (\<lambda>r. Send r (ParticipantsUpdate
                                        (participants_list (AList.delete w (clients s)))
                                        (clk (reads s + 5))))
                      (filter (\<lambda>r. readyState_of (conns s) r = 1)
                          (map fst (AList.delete w (clients s))))
                  @ [ConsoleLog [Lit ''- '', Sub (msg ''name''), Lit '' ['',
                                 Sub (JStr (exitReason code info)),
                                 Lit ''] (code: '', Sub (JNum code), Lit '', duration: '',
                                 Sub (JNum (round_div_1000 (clk (reads s + 3) - clk (reads s)))),
                                 Lit ''s)'']]"
    unfolding dispatch_close [OF c' i'] Let_def
    by (simp add: s'_def delete_update_same filter_open_update_info [where cs = "conns s", OF assms(1)] info_def
          add.commute)
  have m: "map_of (clients s') = (map_of (clients s))(w \<mapsto> info)"
    by (simp add: s'_def update_conv')
  show ?thesis
    unfolding Let_def info_def [symmetric] d fst_conv snd_conv
    using cl m k by (simp add: s'_def)
qed



theorem reregister_replaces_record_witness:
  "snd (dispatch tick_clock lounge ann_again) =
     [Send 1 (System [Sub (JStr ''ann''), Lit '' joined''] 10000),
      Send 2 (System [Sub (JStr ''ann''), Lit '' joined''] 10000),
      Send 1 (ParticipantsUpdate (participants_list [(1, member ''ann'' 9000),
                                                     (2, member ''bob'' 6000)]) 11000),
      Send 2 (ParticipantsUpdate (participants_list [(1, member ''ann'' 9000),
                                                     (2, member ''bob'' 6000)]) 11000),
      ConsoleLog [Lit ''+ '', Sub (JStr ''ann''), Lit '' ('', Sub (JStr ''agent''), Lit '')'']]
   \<and> clients (fst (dispatch tick_clock lounge ann_again)) =
       [(1, member ''ann'' 9000), (2, member ''bob'' 6000)]
   \<and> snd (dispatch tick_clock (fst (dispatch tick_clock lounge ann_again)) (Close 1 1005)) =
       [Send 2 (System [Sub (JStr ''ann''), Lit '' '', Sub (JStr ''disconnected''),
                        Lit '' (was here '', Sub (JNum 3), Lit ''s)''] 13000),
        Send 2 (ParticipantsUpdate (participants_list [(2, member ''bob'' 6000)]) 14000),
        ConsoleLog [Lit ''- '', Sub (JStr ''ann''), Lit '' ['', Sub (JStr ''disconnected''),
                    Lit ''] (code: '', Sub (JNum 1005), Lit '', duration: '', Sub (JNum 3),
                    Lit ''s)'']]"
proof -
  have c: "conns lounge 1 = Some \<lparr> clientInfo = member ''ann'' 2000, readyState = 1 \<rparr>"
    by (simp add: lounge_def room_def)
  have i: "map_of (clients lounge) 1 =
             Some ((member ''ann'' 2000)\<lparr>alive := False, status := JStr ''busy'',
                                          task := JStr ''src/auth/'', leaving := True\<rparr>)"
    by (simp add: lounge_def room_def)
  have t: "obj [(''type'', JStr ''register''), (''name'', JStr ''ann'')] ''type'' = JStr ''register''"
    by (simp add: obj_def)
  have k: "clients (fst (dispatch tick_clock lounge ann_again)) =
             [(1, member ''ann'' 9000), (2, member ''bob'' 6000)]"
    unfolding ann_again_def
      dispatch_register [where msg = "obj [(''type'', JStr ''register''), (''name'', JStr ''ann'')]",
                         OF c t]
    by (simp add: Let_def lounge_def room_def member_def obj_def js_or_def tick_clock_def)
  note th = reregister_replaces_record
            [where s = lounge and w = 1
               and msg = "obj [(''type'', JStr ''register''), (''name'', JStr ''ann'')]"
               and clk = tick_clock, OF c i t, unfolded Let_def, folded ann_again_def]
  have a: "snd (dispatch tick_clock lounge ann_again) =
     [Send 1 (System [Sub (JStr ''ann''), Lit '' joined''] 10000),
      Send 2 (System [Sub (JStr ''ann''), Lit '' joined''] 10000),
      Send 1 (ParticipantsUpdate (participants_list [(1, member ''ann'' 9000),
                                                     (2, member ''bob'' 6000)]) 11000),
      Send 2 (ParticipantsUpdate (participants_list [(1, member ''ann'' 9000),
                                                     (2, member ''bob'' 6000)]) 11000),
      ConsoleLog [Lit ''+ '', Sub (JStr ''ann''), Lit '' ('', Sub (JStr ''agent''), Lit '')'']]"
    unfolding th [THEN conjunct1] k
    by (simp add: lounge_def room_def obj_def js_or_def tick_clock_def readyState_of_def)
  have b: "snd (dispatch tick_clock (fst (dispatch tick_clock lounge ann_again)) (Close 1 1005)) =
       [Send 2 (System [Sub (JStr ''ann''), Lit '' '', Sub (JStr ''disconnected''),
                        Lit '' (was here '', Sub (JNum 3), Lit ''s)''] 13000),
        Send 2 (ParticipantsUpdate (participants_list [(2, member ''bob'' 6000)]) 14000),
        ConsoleLog [Lit ''- '', Sub (JStr ''ann''), Lit '' ['', Sub (JStr ''disconnected''),
                    Lit ''] (code: '', Sub (JNum 1005), Lit '', duration: '', Sub (JNum 3),
                    Lit ''s)'']]"
    unfolding th [THEN conjunct2, THEN conjunct2, THEN conjunct2, THEN conjunct2, THEN conjunct2,
                  rule_format]
    by (simp add: lounge_def room_def obj_def js_or_def tick_clock_def readyState_of_def
          exitReason_def round_div_1000_def)
  from a k b show ?thesis by blast
qed

subsection \<open>Closing a registered socket\<close>

text \<open>
  The close handler in closed form. The close event of a registered socket removes its
  record and nothing else from the registry, and sends to every remaining registered socket
  that is OPEN a system notice made of the record's name, the exit reason and the rounded
  number of seconds between the record's joinedAt and the clock's reading at the close; a
  snapshot of the remaining registry follows. The exit reason is
  \<^verbatim>\<open>left normally\<close> when the close code is 1000 or the record's leaving flag is set;
  else \<^verbatim>\<open>going away\<close> for code 1001; else \<^verbatim>\<open>connection lost\<close> for code
  1006; else \<^verbatim>\<open>heartbeat timeout\<close> when the record's alive flag is false; else
  \<^verbatim>\<open>disconnected\<close>.
\<close>

lemma close_reason_precedence:
  assumes "conns s w = Some c" and "map_of (clients s) w = Some info"
  shows "let reason = (if code = 1000 \<or> leaving info then ''left normally''
                       else if code = 1001 then ''going away''
                       else if code = 1006 then ''connection lost''
                       else if \<not> alive info then ''heartbeat timeout''
                       else ''disconnected'');
             duration = round_div_1000 (clk (reads s) - joinedAt info);
             cl = AList.delete w (clients s);
             rs = filter (\<lambda>r. readyState_of (conns s) r = 1) (map fst cl)
         in dispatch clk s (Close w code) =
              (s\<lparr>conns := (conns s)(w := None), clients := cl, reads := reads s + 3\<rparr>,
               map (\<lambda>r. Send r (System [Sub (name info), Lit '' '', Sub (JStr reason),
                                         Lit '' (was here '', Sub (JNum duration), Lit ''s)'']
                                        (clk (reads s + 1)))) rs
               @ map (\<lambda>r. Send r (ParticipantsUpdate (participants_list cl) (clk (reads s + 2)))) rs
               @ [ConsoleLog [Lit ''- '', Sub (name info), Lit '' ['', Sub (JStr reason),
                              Lit ''] (code: '', Sub (JNum code), Lit '', duration: '',
                              Sub (JNum duration), Lit ''s)'']])
          \<and> map_of cl = (map_of (clients s))(w := None)
          \<and> w \<notin> set rs"
proof -
  have r: "exitReason code info =
             (if code = 1000 \<or> leaving info then ''left normally''
              else if code = 1001 then ''going away''
              else if code = 1006 then ''connection lost''
              else if \<not> alive info then ''heartbeat timeout''
              else ''disconnected'')"
    by (simp add: exitReason_def)
  have k: "w \<notin> set (map fst (AList.delete w (clients s)))"
    by (simp add: delete_keys)
  show ?thesis
    unfolding Let_def r [symmetric]
    using dispatch_close [OF assms, of clk code] k
    by (simp add: Let_def delete_conv')
qed


lemma close_reason_at_lounge:
  "dispatch tick_clock lounge (Close 1 1006) =
     (lounge\<lparr>conns := (conns lounge)(1 := None), clients := [(2, member ''bob'' 6000)],
             reads := 12\<rparr>,
      [Send 2 (System [Sub (JStr ''ann''), Lit '' '', Sub (JStr ''left normally''),
                       Lit '' (was here '', Sub (JNum 7), Lit ''s)''] 10000),
       Send 2 (ParticipantsUpdate (participants_list [(2, member ''bob'' 6000)]) 11000),
       ConsoleLog [Lit ''- '', Sub (JStr ''ann''), Lit '' ['', Sub (JStr ''left normally''),
                   Lit ''] (code: '', Sub (JNum 1006), Lit '', duration: '', Sub (JNum 7),
                   Lit ''s)'']])"
proof -
  have c: "conns lounge 1 = Some \<lparr> clientInfo = member ''ann'' 2000, readyState = 1 \<rparr>"
    by (simp add: lounge_def room_def)
  have i: "map_of (clients lounge) 1 =
             Some ((member ''ann'' 2000)\<lparr>alive := False, status := JStr ''busy'',
                                          task := JStr ''src/auth/'', leaving := True\<rparr>)"
    by (simp add: lounge_def room_def)
  note th = close_reason_precedence [OF c i, of 1006 tick_clock, unfolded Let_def, THEN conjunct1]
  show ?thesis
    unfolding th
    by (simp add: lounge_def room_def member_def tick_clock_def readyState_of_def
          round_div_1000_def)
qed

text \<open>
  C1 at an evicted socket. The order of the tests is the one the claim gives, and at a
  socket that went silent it defeats the claim's third example. Sockets 1 and 2 register;
  socket 1 answers no ping, and the second heartbeat tick terminates it: its record has the
  alive flag false and no leaving flag, and the socket is CLOSING. It has received no close
  frame, so its \<^verbatim>\<open>close\<close> event carries code 1006, and the test for that code
  comes before the test of the alive flag: the notice reads \<^verbatim>\<open>connection lost\<close>.
  The \<^verbatim>\<open>heartbeat timeout\<close> reason that the handler has for such a record is given
  only for a close code that is none of 1000, 1001 and 1006, such as 1005.
\<close>

theorem silent_eviction_close_reason:
  "map_of (clients (fst (run tick_clock init silence_events))) 1 =
     Some ((member ''ann'' 1000)\<lparr>alive := False\<rparr>)
   \<and> readyState_of (conns (fst (run tick_clock init silence_events))) 1 = 2
   \<and> snd (dispatch tick_clock (fst (run tick_clock init silence_events)) (Close 1 1006)) =
     [Send 2 (System [Sub (JStr ''ann''), Lit '' '', Sub (JStr ''connection lost''),
                      Lit '' (was here '', Sub (JNum 9), Lit ''s)''] 11000),
      Send 2 (ParticipantsUpdate
                (participants_list [(2, (member ''bob'' 5000)\<lparr>alive := False\<rparr>)]) 12000),
      ConsoleLog [Lit ''- '', Sub (JStr ''ann''), Lit '' ['', Sub (JStr ''connection lost''),
                  Lit ''] (code: '', Sub (JNum 1006), Lit '', duration: '', Sub (JNum 9),
                  Lit ''s)'']]
   \<and> exitReason 1006 ((member ''ann'' 1000)\<lparr>alive := False\<rparr>) = ''connection lost''
   \<and> exitReason 1005 ((member ''ann'' 1000)\<lparr>alive := False\<rparr>) = ''heartbeat timeout''"
  by (simp add: silence_events_def two_join_def eval_defs)

subsection \<open>Lifetime of a record\<close>

text \<open>
  C4. In every state the broker can reach, a socket that has a record in the registry is a
  socket whose connection is open in the sense that its \<^verbatim>\<open>close\<close> event has not been
  handled yet (it may be closing: a terminated socket keeps its record until its
  \<^verbatim>\<open>close\<close> event). The handler of the \<^verbatim>\<open>close\<close> event removes the record
  before it broadcasts: after it the socket has no record, nothing at all was sent to the
  socket, and every snapshot sent lists the registry without it. The handler of
  \<^verbatim>\<open>register\<close> stores the record before it broadcasts: every snapshot it sends
  lists the new registry, which has the entry of the socket that just registered, and the
  socket itself is sent that snapshot when it is OPEN.
\<close>

theorem record_lifetime:
  assumes "s = fst (run clk init evs)"
  shows "(\<forall>w info. map_of (clients s) w = Some info \<longrightarrow> conns s w \<noteq> None)
       \<and> (\<forall>w code.
             conns (fst (dispatch clk s (Close w code))) w = None
             \<and> map_of (clients (fst (dispatch clk s (Close w code)))) w = None
             \<and> (\<forall>m. Send w m \<notin> set (snd (dispatch clk s (Close w code))))
             \<and> (\<forall>r ps t. Send r (ParticipantsUpdate ps t)
                             \<in> set (snd (dispatch clk s (Close w code))) \<longrightarrow>
                   ps = participants_list (AList.delete w (clients s))))
       \<and> (\<forall>w c msg. conns s w = Some c \<and> msg ''type'' = JStr ''register'' \<longrightarrow>
             (\<exists>info. map_of (clients (fst (dispatch clk s (Message w (Parsed msg))))) w = Some info
                \<and> participant_of info
                     \<in> set (participants_list
                              (clients (fst (dispatch clk s (Message w (Parsed msg))))))
                \<and> (\<forall>r ps t. Send r (ParticipantsUpdate ps t)
                                \<in> set (snd (dispatch clk s (Message w (Parsed msg)))) \<longrightarrow>
                      ps = participants_list
                             (clients (fst (dispatch clk s (Message w (Parsed msg))))))
                \<and> (readyState c = 1 \<longrightarrow>
                      Send w (ParticipantsUpdate
                                (participants_list
                                   (clients (fst (dispatch clk s (Message w (Parsed msg))))))
                                (clk (reads s + 2)))
                        \<in> set (snd (dispatch clk s (Message w (Parsed msg)))))))"
proof -
  have w: "wf s" unfolding assms by (rule wf_run) (rule wf_init)
  have a: "\<forall>w info. map_of (clients s) w = Some info \<longrightarrow> conns s w \<noteq> None"
    using wf_lookup [OF w] by fastforce
  have b: "conns (fst (dispatch clk s (Close w code))) w = None
             \<and> map_of (clients (fst (dispatch clk s (Close w code)))) w = None
             \<and> (\<forall>m. Send w m \<notin> set (snd (dispatch clk s (Close w code))))
             \<and> (\<forall>r ps t. Send r (ParticipantsUpdate ps t)
                             \<in> set (snd (dispatch clk s (Close w code))) \<longrightarrow>
                   ps = participants_list (AList.delete w (clients s)))" for w code
    using close_gone [of s w clk code] close_snapshot [of _ _ _ clk s w code] a by blast
  show ?thesis
    using a b register_joined by blast
qed


theorem record_lifetime_witness:
  "conns room 1 \<noteq> None
   \<and> conns (fst (dispatch tick_clock room (Close 1 1000))) 1 = None
   \<and> map_of (clients (fst (dispatch tick_clock room (Close 1 1000)))) 1 = None
   \<and> Send 3 (ParticipantsUpdate
                (participants_list (clients (fst (dispatch tick_clock room eve_joins)))) 11000)
        \<in> set (snd (dispatch tick_clock room eve_joins))"
proof -
  have r: "room = fst (run tick_clock init room_events)"
    by (simp add: room_reachable)
  note th = record_lifetime [OF r]
  have i: "map_of (clients room) 1 = Some (member ''ann'' 2000)"
    by (simp add: room_def)
  have c: "conns room 3 = Some \<lparr> clientInfo = (member ''unknown'' 0)\<lparr>ctype := JStr ''unknown''\<rparr>,
                                  readyState = 1 \<rparr>"
    by (simp add: room_def)
  have t: "obj [(''type'', JStr ''register''), (''name'', JStr ''eve''),
                (''agentType'', JStr ''user'')] ''type'' = JStr ''register''"
    by (simp add: obj_def)
  have o: "readyState \<lparr> clientInfo = (member ''unknown'' 0)\<lparr>ctype := JStr ''unknown''\<rparr>,
                        readyState = 1 \<rparr> = 1"
    by simp
  have a: "conns room 1 \<noteq> None"
    using th [THEN conjunct1] i by blast
  have b: "conns (fst (dispatch tick_clock room (Close 1 1000))) 1 = None
           \<and> map_of (clients (fst (dispatch tick_clock room (Close 1 1000)))) 1 = None"
    using th [THEN conjunct2, THEN conjunct1] by blast
  have "Send 3 (ParticipantsUpdate
                (participants_list (clients (fst (dispatch tick_clock room
                   (Message 3 (Parsed (obj [(''type'', JStr ''register''), (''name'', JStr ''eve''),
                                            (''agentType'', JStr ''user'')]))))))) (tick_clock (reads room + 2)))
        \<in> set (snd (dispatch tick_clock room
                   (Message 3 (Parsed (obj [(''type'', JStr ''register''), (''name'', JStr ''eve''),
                                            (''agentType'', JStr ''user'')])))))"
    using th [THEN conjunct2, THEN conjunct2, rule_format, of 3 _
                "obj [(''type'', JStr ''register''), (''name'', JStr ''eve''),
                      (''agentType'', JStr ''user'')]"] c t o
    by blast
  then have d: "Send 3 (ParticipantsUpdate
                (participants_list (clients (fst (dispatch tick_clock room eve_joins)))) 11000)
        \<in> set (snd (dispatch tick_clock room eve_joins))"
    unfolding eve_joins_def by (simp add: room_def tick_clock_def del: dispatch.simps)
  from a b d show ?thesis by blast
qed

subsection \<open>Timestamps\<close>





subsection \<open>Heartbeat eviction\<close>

text \<open>
  What a heartbeat tick does to a registered socket: when the record's alive flag is set, the
  flag is cleared and the socket is pinged; when it is not, the socket is terminated and its
  record stays as it is. A pong sets the flag (and so does a new \<^verbatim>\<open>register\<close>, which
  builds a fresh record). So a registered socket is terminated at the latest at the second
  of two ticks that follow each other with no event between them; and no event but the tick
  terminates a socket.
\<close>

lemma heartbeat_loop_effects_keys:
  "heartbeat_loop cl cs = (cl', cs', effs) \<Longrightarrow> Ping k \<in> set effs \<or> Terminate k \<in> set effs \<Longrightarrow>
     k \<in> fst ` set cl"
  by (induction cl cs arbitrary: cl' cs' effs rule: heartbeat_loop.induct)
     (auto split: if_splits prod.splits)

lemma heartbeat_loop_conns_other:
  "heartbeat_loop cl cs = (cl', cs', effs) \<Longrightarrow> k \<notin> fst ` set cl \<Longrightarrow> cs' k = cs k"
  by (induction cl cs arbitrary: cl' cs' effs rule: heartbeat_loop.induct)
     (auto split: if_splits prod.splits option.splits simp: terminate_def)

lemma heartbeat_loop_entry:
  assumes "heartbeat_loop cl cs = (cl', cs', effs)" and "distinct (map fst cl)"
    and "map_of cl w = Some info"
  shows "if alive info
         then Ping w \<in> set effs \<and> Terminate w \<notin> set effs
              \<and> map_of cl' w = Some (info\<lparr>alive := False\<rparr>) \<and> cs' w = cs w
         else Terminate w \<in> set effs \<and> Ping w \<notin> set effs
              \<and> map_of cl' w = Some info \<and> cs' w = terminate w cs w"
  using assms
proof (induction cl cs arbitrary: cl' cs' effs rule: heartbeat_loop.induct)
  case (1 cs)
  then show ?case by simp
next
  case (2 k i rest cs)
  obtain r c e where rec: "heartbeat_loop rest (if alive i then cs else terminate k cs) = (r, c, e)"
    by (cases "heartbeat_loop rest (if alive i then cs else terminate k cs)") auto
  have res: "cl' = (k, if alive i then i\<lparr>alive := False\<rparr> else i) # r" "cs' = c"
       "effs = (if alive i then [Ping k]
                else [ConsoleLog [Lit ''! '', Sub (name i),
                                  Lit '' (no heartbeat response, terminating)''], Terminate k]) @ e"
    using "2.prems"(1) rec by (auto split: if_splits)
  have notin: "k \<notin> fst ` set rest" and dist: "distinct (map fst rest)"
    using "2.prems"(2) by auto
  show ?case
  proof (cases "w = k")
    case True
    then have info: "info = i" using "2.prems"(3) by simp
    have no: "Ping k \<notin> set e" "Terminate k \<notin> set e"
      using heartbeat_loop_effects_keys [OF rec] notin by blast+
    have same: "c k = (if alive i then cs else terminate k cs) k"
      using heartbeat_loop_conns_other [OF rec notin] .
    show ?thesis
      using True info no same res by (auto simp: terminate_def split: option.splits)
  next
    case False
    then have m: "map_of rest w = Some info" using "2.prems"(3) by simp
    have ih: "if alive info
         then Ping w \<in> set e \<and> Terminate w \<notin> set e
              \<and> map_of r w = Some (info\<lparr>alive := False\<rparr>)
              \<and> c w = (if alive i then cs else terminate k cs) w
         else Terminate w \<in> set e \<and> Ping w \<notin> set e
              \<and> map_of r w = Some info
              \<and> c w = terminate w (if alive i then cs else terminate k cs) w"
    proof (cases "alive i")
      case True
      then show ?thesis using "2.IH"(2) [OF _ _ dist m] rec by simp
    next
      case False
      then show ?thesis using "2.IH"(1) [OF _ _ dist m] rec by simp
    qed
    show ?thesis
      using False ih res by (auto simp: terminate_def split: option.splits if_splits)
  qed
qed

lemma heartbeat_tick:
  assumes "distinct (map fst (clients s))" and "map_of (clients s) w = Some info"
  shows "if alive info
         then Ping w \<in> set (snd (heartbeatInterval clk s))
              \<and> Terminate w \<notin> set (snd (heartbeatInterval clk s))
              \<and> map_of (clients (fst (heartbeatInterval clk s))) w = Some (info\<lparr>alive := False\<rparr>)
              \<and> conns (fst (heartbeatInterval clk s)) w = conns s w
         else Terminate w \<in> set (snd (heartbeatInterval clk s))
              \<and> Ping w \<notin> set (snd (heartbeatInterval clk s))
              \<and> map_of (clients (fst (heartbeatInterval clk s))) w = Some info
              \<and> conns (fst (heartbeatInterval clk s)) w = terminate w (conns s) w"
proof -
  obtain cl cs effs where h: "heartbeat_loop (clients s) (conns s) = (cl, cs, effs)"
    by (cases "heartbeat_loop (clients s) (conns s)") auto
  have st: "heartbeatInterval clk s = (s\<lparr>conns := cs, clients := cl, reads := Suc (reads s)\<rparr>, effs)"
    using h by (simp add: heartbeatInterval_def Date_now_def)
  show ?thesis
    unfolding st using heartbeat_loop_entry [OF h assms] by simp
qed

lemma pong_sets_alive:
  assumes "conns s w = Some c" and "map_of (clients s) w = Some info"
  shows "dispatch clk s (Pong w) =
           (s\<lparr>clients := AList.map_entry w (\<lambda>i. i\<lparr>alive := True\<rparr>) (clients s)\<rparr>, [])
         \<and> map_of (AList.map_entry w (\<lambda>i. i\<lparr>alive := True\<rparr>) (clients s)) w
             = Some (info\<lparr>alive := True\<rparr>)"
  using assms by (simp add: on_pong_def has_def map_of_map_entry)

lemma two_silent_ticks_terminate:
  assumes "distinct (map fst (clients s))" and "map_of (clients s) w = Some info"
  shows "Terminate w \<in> set (snd (run clk s [HeartbeatTick, HeartbeatTick]))"
proof -
  let ?s1 = "fst (heartbeatInterval clk s)"
  have d1: "distinct (map fst (clients ?s1))"
  proof -
    obtain cl cs effs where h: "heartbeat_loop (clients s) (conns s) = (cl, cs, effs)"
      by (cases "heartbeat_loop (clients s) (conns s)") auto
    then show ?thesis
      using assms(1) heartbeat_loop_keys [OF h]
      by (simp add: heartbeatInterval_def Date_now_def)
  qed
  show ?thesis
  proof (cases "alive info")
    case True
    then have m1: "map_of (clients ?s1) w = Some (info\<lparr>alive := False\<rparr>)"
      using heartbeat_tick [OF assms, of clk] by simp
    have "Terminate w \<in> set (snd (heartbeatInterval clk ?s1))"
      using heartbeat_tick [OF d1 m1, of clk] by simp
    then show ?thesis by (simp add: case_prod_beta)
  next
    case False
    then have "Terminate w \<in> set (snd (heartbeatInterval clk s))"
      using heartbeat_tick [OF assms, of clk] by simp
    then show ?thesis by (simp add: case_prod_beta)
  qed
qed


lemma message_no_terminate: "Terminate k \<notin> set (snd (on_message clk s w fr))"
proof (cases "conns s w")
  case None
  then show ?thesis by (simp add: on_message_def)
next
  case (Some c)
  show ?thesis
  proof (cases fr)
    case Unparseable
    then show ?thesis using Some by (simp add: on_message_def try_message_def)
  next
    case ParsedNull
    then show ?thesis using Some by (simp add: on_message_def try_message_def)
  next
    case (Parsed msg)
    consider "msg ''type'' = JStr ''register''" | "msg ''type'' = JStr ''status_update''"
      | "msg ''type'' = JStr ''chat''" | "msg ''type'' = JStr ''discovery''"
      | "msg ''type'' = JStr ''leaving''" | "msg ''type'' = JStr ''who''"
      | "msg ''type'' \<noteq> JStr ''register''" "msg ''type'' \<noteq> JStr ''status_update''"
        "msg ''type'' \<noteq> JStr ''chat''" "msg ''type'' \<noteq> JStr ''discovery''"
        "msg ''type'' \<noteq> JStr ''leaving''" "msg ''type'' \<noteq> JStr ''who''"
      by blast
    then show ?thesis
      unfolding Parsed dispatch.simps(2) [symmetric]
    proof cases
      case 1
      show "Terminate k \<notin> set (snd (dispatch clk s (Message w (Parsed msg))))"
        unfolding dispatch_register [where msg = msg, OF Some 1] Let_def by auto
    next
      case 2
      show "Terminate k \<notin> set (snd (dispatch clk s (Message w (Parsed msg))))"
        unfolding dispatch_status_update [where msg = msg, OF Some 2] Let_def
        by (auto split: option.splits)
    next
      case 3
      show "Terminate k \<notin> set (snd (dispatch clk s (Message w (Parsed msg))))"
        unfolding dispatch_chat [where msg = msg, OF Some 3] by auto
    next
      case 4
      show "Terminate k \<notin> set (snd (dispatch clk s (Message w (Parsed msg))))"
        unfolding dispatch_discovery [where msg = msg, OF Some 4] by auto
    next
      case 5
      show "Terminate k \<notin> set (snd (dispatch clk s (Message w (Parsed msg))))"
        unfolding dispatch_leaving [where msg = msg, OF Some 5] by auto
    next
      case 6
      show "Terminate k \<notin> set (snd (dispatch clk s (Message w (Parsed msg))))"
        unfolding dispatch_who [where msg = msg, OF Some 6] by auto
    next
      case 7
      show "Terminate k \<notin> set (snd (dispatch clk s (Message w (Parsed msg))))"
        unfolding dispatch_other [where msg = msg, OF Some 7] by auto
    qed
  qed
qed

lemma close_no_terminate: "Terminate k \<notin> set (snd (dispatch clk s (Close w code)))"
proof (cases "conns s w")
  case None
  then show ?thesis by simp
next
  case (Some c)
  show ?thesis
  proof (cases "map_of (clients s) w")
    case None
    show ?thesis
      unfolding dispatch_close_unregistered [OF Some None] by simp
  next
    case (Some info)
    show ?thesis
      unfolding dispatch_close [OF \<open>conns s w = Some c\<close> Some] Let_def by auto
  qed
qed

lemma terminate_only_at_tick:
  assumes "Terminate k \<in> set (snd (dispatch clk s ev))"
  shows "ev = HeartbeatTick"
proof (cases ev)
  case (Connection w)
  then show ?thesis using assms
    by (auto simp add: on_connection_def Date_now_def split: option.splits)
next
  case (Message w fr)
  then show ?thesis using assms message_no_terminate by simp
next
  case (Pong w)
  then show ?thesis using assms by (auto simp add: on_pong_def split: option.splits if_splits)
next
  case (SocketClosing w)
  then show ?thesis using assms by simp
next
  case (Close w code)
  then show ?thesis using assms close_no_terminate by blast
next
  case HeartbeatTick
  then show ?thesis by simp
next
  case ParticipantTick
  then show ?thesis using assms
    by (auto simp add: participantInterval_def broadcastParticipants_eq split: if_splits)
qed

text \<open>
  C3 at a silent socket. Sockets 1 and 2 register. At the first heartbeat tick both are
  pinged; socket 2 answers, socket 1 does not. At the second tick the broker terminates
  socket 1 and pings socket 2 again. The terminated socket has not received a close frame,
  so its \<^verbatim>\<open>close\<close> event carries code 1006: the handler tests the code before the
  alive flag, and the notice broadcast to socket 2 reads \<^verbatim>\<open>connection lost\<close>, where
  the \<^verbatim>\<open>heartbeat timeout\<close> branch was meant to apply.
\<close>

theorem eviction_reports_connection_lost:
  "snd (run tick_clock (fst (run tick_clock init two_join))
          [HeartbeatTick, Pong 2, HeartbeatTick, Close 1 1006]) =
     [Ping 1,
      Ping 2,
      ConsoleLog [Lit ''! '', Sub (JStr ''ann''), Lit '' (no heartbeat response, terminating)''],
      Terminate 1,
      Ping 2,
      Send 2 (System [Sub (JStr ''ann''), Lit '' '', Sub (JStr ''connection lost''),
                      Lit '' (was here '', Sub (JNum 9), Lit ''s)''] 11000),
      Send 2 (ParticipantsUpdate
                (participants_list [(2, (member ''bob'' 5000)\<lparr>alive := False\<rparr>)]) 12000),
      ConsoleLog [Lit ''- '', Sub (JStr ''ann''), Lit '' ['', Sub (JStr ''connection lost''),
                  Lit ''] (code: '', Sub (JNum 1006), Lit '', duration: '', Sub (JNum 9),
                  Lit ''s)'']]"
  by (simp add: two_join_def eval_defs)

end
